(* ===== verification/Prelude.thy ===== *)
theory Prelude
  imports Main "HOL-Library.Word" "HOL-Library.Multiset"
begin

text \<open>
  Shared vocabulary of the tracing development: the identifier and time types, the
  error taxonomy of the pipeline, the text encoding of identifiers used by the
  carrier wire format (lower-case hexadecimal, as \<open>strconv.FormatUint(x, 16)\<close> and
  \<open>strconv.ParseUint(s, 16, 64)\<close> do), a prefix-stripping helper for reserved
  carrier keys, and the generic lemmas the component theories share.
\<close>

named_theorems tracing_simps \<open>characteristic equations of the tracing model\<close>

subsection \<open>Types\<close>

text \<open>Trace and span identifiers are 64-bit unsigned integers (appdash's \<open>ID uint64\<close>).\<close>

type_synonym trace_id = "64 word"
type_synonym span_id = "64 word"

text \<open>Time stamps are natural numbers of a monotone clock (milliseconds).\<close>

type_synonym time = nat

text \<open>The error taxonomy of the pipeline (spec section 7), as values.\<close>

datatype error =
    ErrorContextNotFound
  | ErrorContextCorrupted
  | ErrorTraceNotFound
  | ErrorCollectionFailed
  | ErrorLifecycleViolation

subsection \<open>Reserved key prefixes\<close>

fun strip_prefix :: "string \<Rightarrow> string \<Rightarrow> string option" where
  "strip_prefix [] s = Some s"
| "strip_prefix (p # ps) [] = None"
| "strip_prefix (p # ps) (c # cs) = (if p = c then strip_prefix ps cs else None)"

subsection \<open>Hexadecimal text of identifiers\<close>

definition hex_chars :: string where
  "hex_chars = ''0123456789abcdef''"

definition hex_digit :: "nat \<Rightarrow> char" where
  "hex_digit d = hex_chars ! d"

text \<open>\<open>FormatUint(n, 16)\<close>: the digits of \<open>n\<close>, most significant first, no leading zeros.\<close>

fun to_hex :: "nat \<Rightarrow> string" where
  "to_hex n = (if n < 16 then [hex_digit n] else to_hex (n div 16) @ [hex_digit (n mod 16)])"

declare to_hex.simps [simp del]

text \<open>A hexadecimal digit of \<open>ParseUint\<close>: \<open>0-9\<close>, \<open>a-f\<close> and \<open>A-F\<close>.\<close>

definition digit_val :: "char \<Rightarrow> nat option" where
  "digit_val c =
     (let n = of_char c :: nat in
      if 48 \<le> n \<and> n \<le> 57 then Some (n - 48)
      else if 97 \<le> n \<and> n \<le> 102 then Some (n - 87)
      else if 65 \<le> n \<and> n \<le> 70 then Some (n - 55)
      else None)"

fun parse_hex_acc :: "nat \<Rightarrow> string \<Rightarrow> nat option" where
  "parse_hex_acc acc [] = Some acc"
| "parse_hex_acc acc (c # cs) =
     (case digit_val c of None \<Rightarrow> None | Some d \<Rightarrow> parse_hex_acc (16 * acc + d) cs)"

definition parse_hex :: "string \<Rightarrow> nat option" where
  "parse_hex s = (if s = [] then None else parse_hex_acc 0 s)"

text \<open>
  Identifiers on the wire: \<open>format_id\<close> prints a 64-bit word, \<open>parse_id\<close> reads one back
  and rejects, as \<open>ParseUint(s, 16, 64)\<close> does, the empty string, a non-digit and a value
  that does not fit in 64 bits.
\<close>

definition format_id :: "64 word \<Rightarrow> string" where
  "format_id w = to_hex (unat w)"

definition parse_id :: "string \<Rightarrow> 64 word option" where
  "parse_id s =
     (case parse_hex s of
        None \<Rightarrow> None
      | Some n \<Rightarrow> if n < 2 ^ 64 then Some (word_of_nat n) else None)"

subsection \<open>Lemmas on prefixes\<close>

lemma strip_prefix_append [simp, tracing_simps]: "strip_prefix p (p @ s) = Some s"
  by (induction p) auto

lemma strip_prefix_Some: "strip_prefix p s = Some t \<Longrightarrow> s = p @ t"
  by (induction p s rule: strip_prefix.induct) (auto split: if_splits)

lemma strip_prefix_None_iff: "strip_prefix p s = None \<longleftrightarrow> (\<forall>t. s \<noteq> p @ t)"
  by (metis option.exhaust strip_prefix_Some strip_prefix_append option.distinct(1))

subsection \<open>Lemmas on the hexadecimal codec\<close>

lemma digit_val_hex_digit [simp]: "d < 16 \<Longrightarrow> digit_val (hex_digit d) = Some d"
proof -
  assume "d < 16"
  then have "d = 0 \<or> d = 1 \<or> d = 2 \<or> d = 3 \<or> d = 4 \<or> d = 5 \<or> d = 6 \<or> d = 7 \<or>
      d = 8 \<or> d = 9 \<or> d = 10 \<or> d = 11 \<or> d = 12 \<or> d = 13 \<or> d = 14 \<or> d = 15"
    by arith
  then show ?thesis
    by (elim disjE) (simp_all add: digit_val_def hex_digit_def hex_chars_def)
qed

lemma to_hex_nonempty [simp]: "to_hex n \<noteq> []"
  by (subst to_hex.simps) simp

lemma parse_hex_acc_append:
  "parse_hex_acc acc (xs @ ys) =
     (case parse_hex_acc acc xs of None \<Rightarrow> None | Some a \<Rightarrow> parse_hex_acc a ys)"
  by (induction acc xs rule: parse_hex_acc.induct) (auto split: option.splits)

lemma parse_hex_acc_to_hex:
  "parse_hex_acc acc (to_hex n) = Some (acc * 16 ^ length (to_hex n) + n)"
proof (induction n arbitrary: acc rule: to_hex.induct)
  case (1 n)
  show ?case
  proof (cases "n < 16")
    case True
    then show ?thesis by (subst (1 2) to_hex.simps) simp
  next
    case False
    let ?h = "to_hex (n div 16)"
    have IH: "parse_hex_acc acc ?h = Some (acc * 16 ^ length ?h + n div 16)"
      using "1.IH" False by simp
    have dv: "digit_val (hex_digit (n mod 16)) = Some (n mod 16)" by simp
    have "16 * (acc * 16 ^ length ?h + n div 16) + n mod 16 = acc * 16 ^ Suc (length ?h) + n"
      by (simp add: algebra_simps)
    with False IH dv show ?thesis
      by (subst (1 2) to_hex.simps) (simp add: parse_hex_acc_append)
  qed
qed

lemma parse_hex_to_hex [simp, tracing_simps]: "parse_hex (to_hex n) = Some n"
  by (simp add: parse_hex_def parse_hex_acc_to_hex)


lemma parse_id_format_id [simp, tracing_simps]: "parse_id (format_id w) = Some w"
proof -
  have "unat w < 2 ^ 64" using unsigned_less [of w] by simp
  then show ?thesis by (simp add: parse_id_def format_id_def)
qed

text \<open>
  The accumulator loop \<open>parse_hex_acc\<close> computes the positional value of the digits: it
  agrees with the reference reading \<open>parse_hex_ref\<close>, which maps every character to its
  digit and sums the digits weighted by powers of 16, least significant last.
\<close>

fun digits_value :: "nat list \<Rightarrow> nat" where
  "digits_value [] = 0"
| "digits_value (d # ds) = d + 16 * digits_value ds"

definition parse_hex_ref :: "string \<Rightarrow> nat option" where
  "parse_hex_ref s =
     (if s = [] then None else map_option (\<lambda>ds. digits_value (rev ds)) (those (map digit_val s)))"

lemma foldl_horner: "foldl (\<lambda>a d. 16 * a + d) acc ds = acc * 16 ^ length ds + digits_value (rev ds)"
  by (induction ds arbitrary: acc rule: rev_induct) (simp_all add: algebra_simps)

lemma parse_hex_acc_those:
  "parse_hex_acc acc cs = map_option (foldl (\<lambda>a d. 16 * a + d) acc) (those (map digit_val cs))"
  by (induction acc cs rule: parse_hex_acc.induct) (auto simp: option.map_comp comp_def split: option.splits)

lemma parse_hex_eq_ref: "parse_hex s = parse_hex_ref s"
proof -
  have f: "foldl (\<lambda>a d. 16 * a + d) 0 = (\<lambda>ds. digits_value (rev ds))"
    by (rule ext) (simp add: foldl_horner)
  show ?thesis by (simp add: parse_hex_def parse_hex_ref_def parse_hex_acc_those f)
qed

lemma to_hex_length_le: "n < 16 ^ k \<Longrightarrow> 0 < k \<Longrightarrow> length (to_hex n) \<le> k"
proof (induction n arbitrary: k rule: to_hex.induct)
  case (1 n)
  show ?case
  proof (cases "n < 16")
    case True
    with "1.prems" show ?thesis by (subst to_hex.simps) simp
  next
    case False
    obtain j where k: "k = Suc j"
      using "1.prems"(2) by (cases k) auto
    have j: "0 < j"
    proof (rule ccontr)
      assume "\<not> 0 < j"
      with k "1.prems"(1) have "n < 16" by simp
      with False show False by simp
    qed
    have "n div 16 < 16 ^ j" using "1.prems"(1) k by (simp add: less_mult_imp_div_less)
    then have "length (to_hex (n div 16)) \<le> j"
      using "1.IH" False j by simp
    with False k show ?thesis by (subst to_hex.simps) simp
  qed
qed

lemma format_id_length: "length (format_id w) \<le> 16"
proof -
  have "unat w < 16 ^ 16" using unsigned_less [of w] by simp
  then show ?thesis unfolding format_id_def by (rule to_hex_length_le) simp
qed

subsection \<open>Lists\<close>

lemma set_butlast_distinct:
  "distinct xs \<Longrightarrow> xs \<noteq> [] \<Longrightarrow> set (butlast xs) = set xs - {last xs}"
proof -
  assume d: "distinct xs" and ne: "xs \<noteq> []"
  from ne have xs: "xs = butlast xs @ [last xs]" by simp
  with d have "last xs \<notin> set (butlast xs)" by (metis distinct_append disjoint_iff list.set_intros(1))
  moreover from xs have "set xs = insert (last xs) (set (butlast xs))" by (metis Un_insert_right append.right_neutral list.simps(15) set_append)
  ultimately show ?thesis by auto
qed

end
