(* ===== verification/Codec.thy ===== *)
theory Codec
  imports Prelude
begin

text \<open>
  The SpanContext codec (spec 4.1, 6): a span context is written into a flat text
  carrier under reserved keys and read back. \<open>inject_ctx\<close> models
  \<open>Tracer.Inject(ctx, opentracing.TextMap, carrier)\<close> as \<open>homeHandler\<close> calls it,
  \<open>extract_ctx\<close> models \<open>Tracer.Extract(opentracing.TextMap, carrier)\<close> as
  \<open>serviceHandler\<close> calls it. Both are library code that src/ only calls, so they are
  modelled from the spec: identity keys under the reserved prefix \<open>ot-tracer-\<close>,
  baggage entries under \<open>baggage-\<close>, identifiers as hexadecimal text.
  A carrier is a map from keys to values; \<open>inject_ctx\<close> performs one \<open>Set\<close> per field, so
  it is the carrier updated at the identity keys and overridden (\<open>++\<close>) at the baggage
  keys; \<open>extract_ctx\<close> reads the reserved keys and ignores every other one.
\<close>

subsection \<open>Span contexts and carriers\<close>

record span_context =
  ctx_trace :: trace_id
  ctx_span :: span_id
  ctx_parent :: "span_id option"
  ctx_baggage :: "string \<rightharpoonup> string"

type_synonym carrier = "string \<rightharpoonup> string"

definition identity_prefix :: string where
  "identity_prefix = ''ot-tracer-''"

definition trace_key :: string where
  "trace_key = identity_prefix @ ''traceid''"

definition span_key :: string where
  "span_key = identity_prefix @ ''spanid''"

definition baggage_prefix :: string where
  "baggage_prefix = ''baggage-''"

text \<open>The carrier entries written for a baggage map: \<open>baggage-k \<mapsto> v\<close> for each \<open>k \<mapsto> v\<close>.\<close>

definition baggage_entries :: "(string \<rightharpoonup> string) \<Rightarrow> carrier" where
  "baggage_entries b = (\<lambda>k. case strip_prefix baggage_prefix k of None \<Rightarrow> None | Some bk \<Rightarrow> b bk)"

definition inject_ctx :: "span_context \<Rightarrow> carrier \<Rightarrow> carrier" where
  "inject_ctx ctx c =
     c(trace_key \<mapsto> format_id (ctx_trace ctx), span_key \<mapsto> format_id (ctx_span ctx))
       ++ baggage_entries (ctx_baggage ctx)"

text \<open>
  \<open>extract_ctx\<close>: no identity key at all is \<open>ErrorContextNotFound\<close> (the caller starts a
  root span); one identity key without the other, or an identifier that does not parse,
  is \<open>ErrorContextCorrupted\<close>. The parent is not on the wire, so the result has none.
\<close>

definition extract_ctx :: "carrier \<Rightarrow> error + span_context" where
  "extract_ctx c =
     (case (c trace_key, c span_key) of
        (None, None) \<Rightarrow> Inl ErrorContextNotFound
      | (Some t, Some s) \<Rightarrow>
          (case (parse_id t, parse_id s) of
             (Some ti, Some si) \<Rightarrow>
               Inr \<lparr>ctx_trace = ti, ctx_span = si, ctx_parent = None,
                    ctx_baggage = (\<lambda>k. c (baggage_prefix @ k))\<rparr>
           | _ \<Rightarrow> Inl ErrorContextCorrupted)
      | _ \<Rightarrow> Inl ErrorContextCorrupted)"

text \<open>A key is reserved when it is an identity key or carries the baggage prefix.\<close>

definition reserved_key :: "string \<Rightarrow> bool" where
  "reserved_key k \<longleftrightarrow> k = trace_key \<or> k = span_key \<or> strip_prefix baggage_prefix k \<noteq> None"

subsection \<open>Key lemmas\<close>

lemma trace_key_ne_span_key [simp]: "trace_key \<noteq> span_key"
  by (simp add: trace_key_def span_key_def identity_prefix_def)

lemma strip_baggage_trace_key [simp]: "strip_prefix baggage_prefix trace_key = None"
  by (simp add: trace_key_def baggage_prefix_def identity_prefix_def)

lemma strip_baggage_span_key [simp]: "strip_prefix baggage_prefix span_key = None"
  by (simp add: span_key_def baggage_prefix_def identity_prefix_def)

lemma baggage_key_ne_identity [simp]:
  "baggage_prefix @ k \<noteq> trace_key" "baggage_prefix @ k \<noteq> span_key"
  by (metis strip_baggage_trace_key strip_prefix_append option.distinct(1))
     (metis strip_baggage_span_key strip_prefix_append option.distinct(1))

lemma baggage_entries_identity [simp]:
  "baggage_entries b trace_key = None" "baggage_entries b span_key = None"
  by (simp_all add: baggage_entries_def)

lemma baggage_entries_prefixed [simp]: "baggage_entries b (baggage_prefix @ k) = b k"
  by (simp add: baggage_entries_def)

lemma inject_identity [simp]:
  "inject_ctx ctx c trace_key = Some (format_id (ctx_trace ctx))"
  "inject_ctx ctx c span_key = Some (format_id (ctx_span ctx))"
  by (simp_all add: inject_ctx_def map_add_def)

lemma inject_baggage [simp]:
  "inject_ctx ctx c (baggage_prefix @ k) = (case ctx_baggage ctx k of None \<Rightarrow> c (baggage_prefix @ k) | Some v \<Rightarrow> Some v)"
  by (simp add: inject_ctx_def map_add_def split: option.split)

lemma inject_baggage_view:
  "(\<lambda>k. inject_ctx ctx c (baggage_prefix @ k)) = (\<lambda>k. c (baggage_prefix @ k)) ++ ctx_baggage ctx"
  by (rule ext) (simp add: map_add_def split: option.split)

text \<open>
  Extraction after injection into any carrier: the identity comes back, the parent is
  dropped, and the baggage is the injected baggage over what the carrier already held
  under the baggage prefix.
\<close>

lemma extract_inject:
  "extract_ctx (inject_ctx ctx c) =
     Inr (ctx\<lparr>ctx_parent := None, ctx_baggage := (\<lambda>k. c (baggage_prefix @ k)) ++ ctx_baggage ctx\<rparr>)"
  by (cases ctx) (simp add: extract_ctx_def inject_baggage_view del: inject_baggage)

lemma not_reserved_key:
  "\<not> reserved_key k \<Longrightarrow> k \<noteq> trace_key \<and> k \<noteq> span_key \<and> strip_prefix baggage_prefix k = None"
  by (simp add: reserved_key_def)

lemma not_reserved_prefixed: "\<not> reserved_key k \<Longrightarrow> k \<noteq> baggage_prefix @ b"
  by (auto simp: reserved_key_def)

end
