(* ===== verification/Span.thy ===== *)
theory Span
  imports Codec
begin

text \<open>
  A span (spec 3, 4.2): a timed, tagged, annotated unit of work. Its context, operation
  name and start time are fixed when it is started; until \<open>Finish\<close> it takes tags
  (\<open>SetTag\<close>, \<open>ext.Error.Set\<close>) and log records (\<open>LogEvent\<close>,
  \<open>LogEventWithPayload\<close>); after \<open>Finish\<close> it is frozen. The span type is library
  code (appdash's opentracing span) that main.go calls, so it is modelled from the spec:
  a mutation after \<open>Finish\<close> is the value \<open>Inl ErrorLifecycleViolation\<close> (it fails
  loudly), and a second \<open>Finish\<close> submits nothing (first finish wins).
\<close>

subsection \<open>Data\<close>

text \<open>Tag values as a closed variant (spec 9): string, number, bool or bytes.\<close>

datatype tag_value = TagString string | TagInt int | TagBool bool | TagBytes "8 word list"

record log_record =
  log_time :: time
  log_message :: string
  log_payload :: "string option"

record span =
  sp_context :: span_context
  sp_operation :: string
  sp_start :: time
  sp_finish :: "time option"
  sp_tags :: "string \<rightharpoonup> tag_value"
  sp_logs :: "log_record list"

subsection \<open>Operations\<close>

definition new_span :: "span_context \<Rightarrow> string \<Rightarrow> time \<Rightarrow> span" where
  "new_span ctx op now =
     \<lparr>sp_context = ctx, sp_operation = op, sp_start = now, sp_finish = None,
      sp_tags = Map.empty, sp_logs = []\<rparr>"

definition is_finished :: "span \<Rightarrow> bool" where
  "is_finished sp \<longleftrightarrow> sp_finish sp \<noteq> None"

definition set_tag :: "string \<Rightarrow> tag_value \<Rightarrow> span \<Rightarrow> error + span" where
  "set_tag k v sp =
     (if is_finished sp then Inl ErrorLifecycleViolation
      else Inr (sp\<lparr>sp_tags := (sp_tags sp)(k \<mapsto> v)\<rparr>))"

definition log_with :: "time \<Rightarrow> string \<Rightarrow> string option \<Rightarrow> span \<Rightarrow> error + span" where
  "log_with now msg p sp =
     (if is_finished sp then Inl ErrorLifecycleViolation
      else Inr (sp\<lparr>sp_logs := sp_logs sp @ [\<lparr>log_time = now, log_message = msg, log_payload = p\<rparr>]\<rparr>))"

definition log_event :: "time \<Rightarrow> string \<Rightarrow> span \<Rightarrow> error + span" where
  "log_event now msg = log_with now msg None"

definition log_event_with_payload :: "time \<Rightarrow> string \<Rightarrow> string \<Rightarrow> span \<Rightarrow> error + span" where
  "log_event_with_payload now msg p = log_with now msg (Some p)"

text \<open>
  \<open>Finish\<close> returns the span after the call and the record it hands to the collector,
  if any: the first call stamps the finish time and submits the frozen span, a later
  call changes nothing and submits nothing.
\<close>

definition finish_span :: "time \<Rightarrow> span \<Rightarrow> span \<times> span option" where
  "finish_span now sp =
     (case sp_finish sp of
        Some _ \<Rightarrow> (sp, None)
      | None \<Rightarrow> let sp' = sp\<lparr>sp_finish := Some now\<rparr> in (sp', Some sp'))"

text \<open>A span is well formed when a finish time, if set, is not before the start time.\<close>

definition span_wf :: "span \<Rightarrow> bool" where
  "span_wf sp \<longleftrightarrow> (case sp_finish sp of None \<Rightarrow> True | Some f \<Rightarrow> sp_start sp \<le> f)"

subsection \<open>Lemmas\<close>

lemma new_span_simps [simp]:
  "sp_context (new_span ctx op now) = ctx" "sp_operation (new_span ctx op now) = op"
  "sp_start (new_span ctx op now) = now" "sp_finish (new_span ctx op now) = None"
  "\<not> is_finished (new_span ctx op now)" "span_wf (new_span ctx op now)"
  by (simp_all add: new_span_def is_finished_def span_wf_def)

lemma set_tag_Inr:
  "set_tag k v sp = Inr sp' \<longleftrightarrow>
     \<not> is_finished sp \<and> sp' = sp\<lparr>sp_tags := (sp_tags sp)(k \<mapsto> v)\<rparr>"
  by (auto simp: set_tag_def)

lemma log_with_Inr:
  "log_with now msg p sp = Inr sp' \<longleftrightarrow>
     \<not> is_finished sp \<and>
     sp' = sp\<lparr>sp_logs := sp_logs sp @ [\<lparr>log_time = now, log_message = msg, log_payload = p\<rparr>]\<rparr>"
  by (auto simp: log_with_def)

lemma mutation_after_finish:
  "is_finished sp \<Longrightarrow> set_tag k v sp = Inl ErrorLifecycleViolation"
  "is_finished sp \<Longrightarrow> log_with now msg p sp = Inl ErrorLifecycleViolation"
  by (simp_all add: set_tag_def log_with_def)

lemma finish_span_fresh [simp]:
  "sp_finish sp = None \<Longrightarrow>
     finish_span now sp = (sp\<lparr>sp_finish := Some now\<rparr>, Some (sp\<lparr>sp_finish := Some now\<rparr>))"
  by (simp add: finish_span_def Let_def)

lemma finish_span_again [simp]:
  "sp_finish sp = Some t \<Longrightarrow> finish_span now sp = (sp, None)"
  by (simp add: finish_span_def)

lemma finish_span_finished: "is_finished (fst (finish_span now sp))"
  by (cases "sp_finish sp") (simp_all add: is_finished_def)

lemma finish_span_twice: "snd (finish_span t2 (fst (finish_span t1 sp))) = None"
  by (cases "sp_finish sp") (simp_all add: finish_span_def Let_def)

lemma finish_span_keeps_context:
  "sp_context (fst (finish_span now sp)) = sp_context sp"
  "sp_start (fst (finish_span now sp)) = sp_start sp"
  by (cases "sp_finish sp"; simp)+

lemma finish_span_wf:
  "span_wf sp \<Longrightarrow> sp_start sp \<le> now \<Longrightarrow> span_wf (fst (finish_span now sp))"
  by (cases "sp_finish sp") (simp_all add: span_wf_def)

lemma mutations_keep_identity:
  "set_tag k v sp = Inr sp' \<Longrightarrow> sp_context sp' = sp_context sp \<and> sp_start sp' = sp_start sp \<and> sp_finish sp' = sp_finish sp"
  "log_with now msg p sp = Inr sp' \<Longrightarrow> sp_context sp' = sp_context sp \<and> sp_start sp' = sp_start sp \<and> sp_finish sp' = sp_finish sp"
  by (auto simp: set_tag_Inr log_with_Inr)

end
