(* ===== verification/Tracer.thy ===== *)
theory Tracer
  imports Span
begin

text \<open>
  The tracer (spec 4.2): \<open>StartSpan(operationName, options)\<close> creates a root span (fresh
  trace and span identifiers, no parent, empty baggage) or, with \<open>ChildOf(parent)\<close>, a
  child that keeps the parent's trace identifier and baggage, records the parent's span
  identifier and gets a fresh span identifier. Identifiers are drawn from a random
  source; the model makes the source explicit as a sequence \<open>id_gen\<close> of 64-bit values
  and a count of the values drawn so far, so that "globally unique with high
  probability" becomes the hypothesis that the drawn prefix of the sequence has no
  repetition. The tracer is appdash's opentracing tracer, library code main.go only
  constructs (\<open>appdashot.NewTracer\<close>) and calls, so it is modelled from the spec.
\<close>

record tracer =
  id_gen :: "nat \<Rightarrow> 64 word"
  draws :: nat

definition fresh_id :: "tracer \<Rightarrow> 64 word \<times> tracer" where
  "fresh_id t = (id_gen t (draws t), t\<lparr>draws := Suc (draws t)\<rparr>)"

datatype start_opt = NewRoot | ChildOf span_context

definition start_span :: "string \<Rightarrow> start_opt \<Rightarrow> time \<Rightarrow> tracer \<Rightarrow> span \<times> tracer" where
  "start_span op opt now t =
     (case opt of
        NewRoot \<Rightarrow>
          (let (tid, t1) = fresh_id t; (sid, t2) = fresh_id t1
           in (new_span \<lparr>ctx_trace = tid, ctx_span = sid, ctx_parent = None,
                         ctx_baggage = Map.empty\<rparr> op now, t2))
      | ChildOf p \<Rightarrow>
          (let (sid, t1) = fresh_id t
           in (new_span \<lparr>ctx_trace = ctx_trace p, ctx_span = sid,
                         ctx_parent = Some (ctx_span p), ctx_baggage = ctx_baggage p\<rparr> op now, t1)))"

text \<open>The identifiers drawn so far have no repetition.\<close>

definition ids_unique :: "tracer \<Rightarrow> bool" where
  "ids_unique t \<longleftrightarrow> inj_on (id_gen t) {..<draws t}"

subsection \<open>Lemmas\<close>

lemma start_span_root [simp]:
  "start_span op NewRoot now t =
     (new_span \<lparr>ctx_trace = id_gen t (draws t), ctx_span = id_gen t (Suc (draws t)),
                ctx_parent = None, ctx_baggage = Map.empty\<rparr> op now,
      t\<lparr>draws := Suc (Suc (draws t))\<rparr>)"
  by (simp add: start_span_def fresh_id_def)

lemma start_span_child [simp]:
  "start_span op (ChildOf p) now t =
     (new_span \<lparr>ctx_trace = ctx_trace p, ctx_span = id_gen t (draws t),
                ctx_parent = Some (ctx_span p), ctx_baggage = ctx_baggage p\<rparr> op now,
      t\<lparr>draws := Suc (draws t)\<rparr>)"
  by (simp add: start_span_def fresh_id_def)

lemma start_span_gen [simp]: "id_gen (snd (start_span op opt now t)) = id_gen t"
  by (cases opt) simp_all

lemma start_span_draws_mono: "draws t < draws (snd (start_span op opt now t))"
  by (cases opt) simp_all

lemma start_span_fresh_span_id:
  "\<exists>n. draws t \<le> n \<and> n < draws (snd (start_span op opt now t)) \<and>
       ctx_span (sp_context (fst (start_span op opt now t))) = id_gen t n"
proof (cases opt)
  case NewRoot
  then show ?thesis by (intro exI [of _ "Suc (draws t)"]) simp
next
  case (ChildOf p)
  then show ?thesis by (intro exI [of _ "draws t"]) simp
qed

end
