(* ===== verification/MemoryStore.thy ===== *)
theory MemoryStore
  imports Span
begin

text \<open>
  The in-memory store (spec 4.4): \<open>appdash.NewMemoryStore()\<close> in main.go, the store the
  local collector writes to and the trace UI reads (\<open>tapp.Store\<close>, \<open>tapp.Queryer\<close>).
  Library code, modelled from the spec: span records are kept in one bucket per trace
  identifier, in arrival order; \<open>recency\<close> lists the trace identifiers most recent
  arrival first; when more than \<open>max_traces\<close> traces are held, the trace whose last
  span arrived longest ago (the last of \<open>recency\<close>) is evicted whole.
  \<open>store_trace\<close> is \<open>Trace(id)\<close> with \<open>ErrorTraceNotFound\<close>, \<open>store_traces\<close> is
  \<open>Traces()\<close>, most recent first.
\<close>

record mem_store =
  buckets :: "trace_id \<rightharpoonup> span list"
  recency :: "trace_id list"
  max_traces :: nat

definition empty_store :: "nat \<Rightarrow> mem_store" where
  "empty_store cap = \<lparr>buckets = Map.empty, recency = [], max_traces = cap\<rparr>"

definition evict_oldest :: "mem_store \<Rightarrow> mem_store" where
  "evict_oldest st =
     (if max_traces st < length (recency st)
      then let old = last (recency st)
           in st\<lparr>buckets := (buckets st)(old := None), recency := butlast (recency st)\<rparr>
      else st)"

definition store_collect :: "span \<Rightarrow> mem_store \<Rightarrow> mem_store" where
  "store_collect sp st =
     (let tid = ctx_trace (sp_context sp);
          old = (case buckets st tid of None \<Rightarrow> [] | Some xs \<Rightarrow> xs)
      in evict_oldest (st\<lparr>buckets := (buckets st)(tid \<mapsto> old @ [sp]),
                         recency := tid # removeAll tid (recency st)\<rparr>))"

definition store_trace :: "mem_store \<Rightarrow> trace_id \<Rightarrow> error + span list" where
  "store_trace st tid = (case buckets st tid of None \<Rightarrow> Inl ErrorTraceNotFound | Some xs \<Rightarrow> Inr xs)"

definition store_traces :: "mem_store \<Rightarrow> (trace_id \<times> span list) list" where
  "store_traces st =
     concat (map (\<lambda>tid. case buckets st tid of None \<Rightarrow> [] | Some xs \<Rightarrow> [(tid, xs)]) (recency st))"

subsection \<open>Assembling a trace into a tree\<close>

text \<open>
  \<open>Trace(id)\<close> returns the trace's spans assembled into a forest by parent links. Spans are
  inserted in arrival order: a span whose parent is already in the forest becomes that
  node's last child; one whose parent has not arrived (or that has none) becomes a root,
  an orphan kept rather than dropped; and when a span arrives, every root waiting for it
  as parent is re-parented under it.
\<close>

datatype span_tree = Node span "span_tree list"

fun flat :: "span_tree \<Rightarrow> span list" where
  "flat (Node sp ts) = sp # concat (map flat ts)"

definition flat_forest :: "span_tree list \<Rightarrow> span list" where
  "flat_forest ts = concat (map flat ts)"

fun root_parent :: "span_tree \<Rightarrow> span_id option" where
  "root_parent (Node sp _) = ctx_parent (sp_context sp)"

fun attach_tree :: "span_tree \<Rightarrow> span_id \<Rightarrow> span_tree \<Rightarrow> span_tree option"
  and attach_list :: "span_tree \<Rightarrow> span_id \<Rightarrow> span_tree list \<Rightarrow> span_tree list option" where
  "attach_tree n pid (Node sp cs) =
     (if ctx_span (sp_context sp) = pid then Some (Node sp (cs @ [n]))
      else map_option (Node sp) (attach_list n pid cs))"
| "attach_list n pid [] = None"
| "attach_list n pid (t # ts) =
     (case attach_tree n pid t of
        Some t' \<Rightarrow> Some (t' # ts)
      | None \<Rightarrow> map_option (Cons t) (attach_list n pid ts))"

definition insert_span :: "span \<Rightarrow> span_tree list \<Rightarrow> span_tree list" where
  "insert_span sp f =
     (let me = Some (ctx_span (sp_context sp));
          n = Node sp (filter (\<lambda>t. root_parent t = me) f);
          others = filter (\<lambda>t. root_parent t \<noteq> me) f
      in case ctx_parent (sp_context sp) of
           None \<Rightarrow> others @ [n]
         | Some pid \<Rightarrow> (case attach_list n pid others of Some f' \<Rightarrow> f' | None \<Rightarrow> others @ [n]))"

definition trace_forest :: "span list \<Rightarrow> span_tree list" where
  "trace_forest xs = fold insert_span xs []"

text \<open>A tree is faithful when each child's parent link names its parent node's span.\<close>

fun tree_ok :: "span_tree \<Rightarrow> bool" where
  "tree_ok (Node sp cs) = (\<forall>c \<in> set cs. root_parent c = Some (ctx_span (sp_context sp)) \<and> tree_ok c)"

definition store_trace_tree :: "mem_store \<Rightarrow> trace_id \<Rightarrow> error + span_tree list" where
  "store_trace_tree st tid =
     (case buckets st tid of None \<Rightarrow> Inl ErrorTraceNotFound | Some xs \<Rightarrow> Inr (trace_forest xs))"

text \<open>
  The store's invariant: \<open>recency\<close> lists each held trace once, no more than the bound;
  every bucket is non-empty and holds only spans of its trace.
\<close>

definition store_inv :: "mem_store \<Rightarrow> bool" where
  "store_inv st \<longleftrightarrow>
     distinct (recency st) \<and> set (recency st) = dom (buckets st) \<and>
     length (recency st) \<le> max_traces st \<and>
     (\<forall>tid xs. buckets st tid = Some xs \<longrightarrow>
        xs \<noteq> [] \<and> (\<forall>sp \<in> set xs. ctx_trace (sp_context sp) = tid))"

subsection \<open>Lemmas\<close>

lemma store_inv_empty [simp]: "store_inv (empty_store cap)"
  by (simp add: store_inv_def empty_store_def)

lemma max_traces_collect [simp]: "max_traces (store_collect sp st) = max_traces st"
  by (simp add: store_collect_def evict_oldest_def Let_def)

lemma last_removeAll_ne:
  "1 < length (x # removeAll x xs) \<Longrightarrow> last (x # removeAll x xs) \<noteq> x"
proof -
  assume "1 < length (x # removeAll x xs)"
  then have ne: "removeAll x xs \<noteq> []" by auto
  then have "last (removeAll x xs) \<in> set (removeAll x xs)" by (rule last_in_set)
  with ne show ?thesis by simp
qed

text \<open>The trace just written to is never the one evicted, as long as the bound is positive.\<close>

lemma store_collect_own_bucket:
  assumes "0 < max_traces st"
  shows "buckets (store_collect sp st) (ctx_trace (sp_context sp)) =
           Some ((case buckets st (ctx_trace (sp_context sp)) of None \<Rightarrow> [] | Some xs \<Rightarrow> xs) @ [sp])"
  using assms last_removeAll_ne [of "ctx_trace (sp_context sp)" "recency st"]
  by (auto simp: store_collect_def evict_oldest_def Let_def)

lemma store_collect_other_bucket:
  "tid \<noteq> ctx_trace (sp_context sp) \<Longrightarrow>
     buckets (store_collect sp st) tid =
       (if max_traces st < length (ctx_trace (sp_context sp) # removeAll (ctx_trace (sp_context sp)) (recency st))
           \<and> tid = last (ctx_trace (sp_context sp) # removeAll (ctx_trace (sp_context sp)) (recency st))
        then None else buckets st tid)"
  by (auto simp: store_collect_def evict_oldest_def Let_def)

lemma store_collect_recency:
  "recency (store_collect sp st) =
     (let r = ctx_trace (sp_context sp) # removeAll (ctx_trace (sp_context sp)) (recency st)
      in if max_traces st < length r then butlast r else r)"
  by (simp add: store_collect_def evict_oldest_def Let_def)

lemma store_collect_unfold:
  "store_collect sp st =
     evict_oldest (st\<lparr>buckets := (buckets st)(ctx_trace (sp_context sp) \<mapsto>
                      (case buckets st (ctx_trace (sp_context sp)) of None \<Rightarrow> [] | Some xs \<Rightarrow> xs) @ [sp]),
                    recency := ctx_trace (sp_context sp) # removeAll (ctx_trace (sp_context sp)) (recency st)\<rparr>)"
  by (simp add: store_collect_def Let_def)

text \<open>Every collect keeps the store's invariant.\<close>

lemma store_collect_inv: "store_inv st \<Longrightarrow> store_inv (store_collect sp st)"
proof -
  assume inv: "store_inv st"
  define tid where "tid = ctx_trace (sp_context sp)"
  define r where "r = tid # removeAll tid (recency st)"
  define b where "b = (buckets st)(tid \<mapsto> (case buckets st tid of None \<Rightarrow> [] | Some xs \<Rightarrow> xs) @ [sp])"
  have eq: "store_collect sp st = evict_oldest (st\<lparr>buckets := b, recency := r\<rparr>)"
    by (simp add: store_collect_unfold tid_def r_def b_def)
  have dr: "distinct r" using inv by (simp add: r_def store_inv_def distinct_removeAll)
  have sr: "set r = dom b" using inv by (auto simp: r_def b_def store_inv_def)
  have l1: "length (removeAll tid (recency st)) \<le> length (recency st)"
    by (simp add: removeAll_filter_not_eq)
  have l2: "length (recency st) \<le> max_traces st" using inv by (simp add: store_inv_def)
  have lr: "length r \<le> Suc (max_traces st)" using le_trans [OF l1 l2] by (simp add: r_def)
  have bk: "\<forall>t xs. b t = Some xs \<longrightarrow> xs \<noteq> [] \<and> (\<forall>s\<in>set xs. ctx_trace (sp_context s) = t)"
    using inv by (auto simp: b_def store_inv_def tid_def split: option.splits) metis
  show ?thesis
  proof (cases "max_traces st < length r")
    case False
    then show ?thesis using dr sr bk by (simp add: eq evict_oldest_def store_inv_def)
  next
    case True
    then have ne: "r \<noteq> []" by auto
    have "distinct (butlast r)" using dr by (simp add: distinct_butlast)
    moreover have "set (butlast r) = dom (b(last r := None))"
      using dr ne sr by (simp add: set_butlast_distinct)
    moreover have "length (butlast r) \<le> max_traces st" using lr by simp
    moreover have "\<forall>t xs. (b(last r := None)) t = Some xs \<longrightarrow>
                     xs \<noteq> [] \<and> (\<forall>s\<in>set xs. ctx_trace (sp_context s) = t)"
      using bk by simp
    ultimately show ?thesis using True by (simp add: eq evict_oldest_def store_inv_def Let_def)
  qed
qed

text \<open>
  Collecting into a full store a span of a trace it does not hold evicts the trace whose
  last span arrived longest ago and opens a bucket holding just the new span.
\<close>

lemma store_collect_evicts:
  assumes inv: "store_inv st" and pos: "0 < max_traces st"
    and full: "length (recency st) = max_traces st"
    and new: "ctx_trace (sp_context sp) \<notin> set (recency st)"
  shows "buckets (store_collect sp st) (last (recency st)) = None \<and>
         buckets (store_collect sp st) (ctx_trace (sp_context sp)) = Some [sp]"
proof -
  let ?tid = "ctx_trace (sp_context sp)"
  have ne: "recency st \<noteq> []" using pos full by auto
  have ra: "removeAll ?tid (recency st) = recency st" using new by simp
  have nb: "buckets st ?tid = None" using inv new by (auto simp: store_inv_def)
  have lt: "last (recency st) \<noteq> ?tid" using ne new last_in_set by fastforce
  have "buckets (store_collect sp st) (last (recency st)) = None"
    using lt full ne ra by (simp add: store_collect_other_bucket)
  moreover have "buckets (store_collect sp st) ?tid = Some [sp]"
    using store_collect_own_bucket [OF pos, of sp] nb by simp
  ultimately show ?thesis ..
qed

text \<open>Collecting a sequence of spans of one trace appends them all, in order.\<close>

lemma store_collect_fold_same_trace:
  assumes "0 < max_traces st" and "\<forall>sp \<in> set xs. ctx_trace (sp_context sp) = tid"
  shows "buckets (fold store_collect xs st) tid =
           (if xs = [] then buckets st tid
            else Some ((case buckets st tid of None \<Rightarrow> [] | Some ys \<Rightarrow> ys) @ xs))"
  using assms
proof (induction xs arbitrary: st)
  case Nil
  then show ?case by simp
next
  case (Cons x xs)
  have tx: "ctx_trace (sp_context x) = tid" using Cons.prems(2) by simp
  have b1: "buckets (store_collect x st) tid =
              Some ((case buckets st tid of None \<Rightarrow> [] | Some ys \<Rightarrow> ys) @ [x])"
    using store_collect_own_bucket [OF Cons.prems(1), of x] tx by simp
  have "0 < max_traces (store_collect x st)" using Cons.prems(1) by simp
  then have IH: "buckets (fold store_collect xs (store_collect x st)) tid =
      (if xs = [] then buckets (store_collect x st) tid
       else Some ((case buckets (store_collect x st) tid of None \<Rightarrow> [] | Some ys \<Rightarrow> ys) @ xs))"
    using Cons.prems(2) by (intro Cons.IH) simp_all
  show ?case using IH b1 by simp
qed

subsection \<open>Lemmas on trace assembly\<close>

lemma attach_mset:
  "attach_tree n pid t = Some t' \<Longrightarrow> mset (flat t') = mset (flat t) + mset (flat n)"
  "attach_list n pid ts = Some ts' \<Longrightarrow>
     mset (flat_forest ts') = mset (flat_forest ts) + mset (flat n)"
proof (induction n pid t and n pid ts arbitrary: t' and ts' rule: attach_tree_attach_list.induct)
  case (1 n pid sp cs)
  then show ?case
    by (auto simp: flat_forest_def split: if_splits)
next
  case (2 n pid)
  then show ?case by simp
next
  case (3 n pid t ts)
  then show ?case
    by (auto simp: flat_forest_def split: option.splits)
qed

lemma flat_forest_append [simp]: "flat_forest (xs @ ys) = flat_forest xs @ flat_forest ys"
  by (simp add: flat_forest_def)

lemma mset_flat_forest_partition:
  "mset (flat_forest (filter P f)) + mset (flat_forest (filter (\<lambda>t. \<not> P t) f)) = mset (flat_forest f)"
  by (induction f) (auto simp: flat_forest_def)

lemma insert_span_mset:
  "mset (flat_forest (insert_span sp f)) = mset (flat_forest f) + {#sp#}"
proof -
  define me where "me = Some (ctx_span (sp_context sp))"
  define n where "n = Node sp (filter (\<lambda>t. root_parent t = me) f)"
  define others where "others = filter (\<lambda>t. root_parent t \<noteq> me) f"
  have part: "mset (flat n) + mset (flat_forest others) = mset (flat_forest f) + {#sp#}"
    using mset_flat_forest_partition [of "\<lambda>t. root_parent t = me" f]
    by (simp add: n_def others_def flat_forest_def)
  have alt: "mset (flat_forest (others @ [n])) = mset (flat_forest f) + {#sp#}"
    using part by (simp add: flat_forest_def add.commute)
  have eq: "insert_span sp f =
      (case ctx_parent (sp_context sp) of
         None \<Rightarrow> others @ [n]
       | Some pid \<Rightarrow> (case attach_list n pid others of Some f' \<Rightarrow> f' | None \<Rightarrow> others @ [n]))"
    unfolding insert_span_def Let_def me_def n_def others_def by (rule refl)
  show ?thesis
  proof (cases "ctx_parent (sp_context sp)")
    case None
    with eq alt show ?thesis by simp
  next
    case (Some pid)
    show ?thesis
    proof (cases "attach_list n pid others")
      case None
      with eq alt Some show ?thesis by simp
    next
      case (Some f')
      then have "mset (flat_forest f') = mset (flat_forest others) + mset (flat n)"
        by (rule attach_mset(2))
      with eq \<open>ctx_parent (sp_context sp) = Some pid\<close> Some part show ?thesis
        by (simp add: add.commute)
    qed
  qed
qed

text \<open>Assembly keeps every span of the bucket exactly once: no span is dropped or duplicated.\<close>

lemma trace_forest_mset: "mset (flat_forest (trace_forest xs)) = mset xs"
proof -
  have "mset (flat_forest (fold insert_span xs f)) = mset (flat_forest f) + mset xs" for f
    by (induction xs arbitrary: f) (simp_all add: insert_span_mset add.assoc)
  then show ?thesis by (simp add: trace_forest_def flat_forest_def)
qed

lemma attach_ok:
  "attach_tree n pid t = Some t' \<Longrightarrow> tree_ok t \<Longrightarrow> tree_ok n \<Longrightarrow> root_parent n = Some pid \<Longrightarrow> tree_ok t'"
  "attach_list n pid ts = Some ts' \<Longrightarrow> (\<forall>t \<in> set ts. tree_ok t) \<Longrightarrow> tree_ok n \<Longrightarrow>
     root_parent n = Some pid \<Longrightarrow> (\<forall>t \<in> set ts'. tree_ok t) \<and> map root_parent ts' = map root_parent ts"
proof (induction n pid t and n pid ts arbitrary: t' and ts' rule: attach_tree_attach_list.induct)
  case (1 n pid sp cs)
  show ?case
  proof (cases "ctx_span (sp_context sp) = pid")
    case True
    with "1.prems" show ?thesis by auto
  next
    case False
    with "1.prems" obtain cs' where a: "attach_list n pid cs = Some cs'" and t': "t' = Node sp cs'" by auto
    from "1.prems"(2) have "\<forall>c \<in> set cs. tree_ok c" by simp
    with "1.IH" [OF False a _ "1.prems"(3,4)] have "(\<forall>c \<in> set cs'. tree_ok c) \<and> map root_parent cs' = map root_parent cs"
      by simp
    moreover have "\<forall>c \<in> set cs. root_parent c = Some (ctx_span (sp_context sp))" using "1.prems"(2) by simp
    ultimately have "\<forall>c \<in> set cs'. root_parent c = Some (ctx_span (sp_context sp))"
      by (metis (mono_tags, lifting) imageI image_set list.set_map imageE)
    with \<open>(\<forall>c \<in> set cs'. tree_ok c) \<and> _\<close> t' show ?thesis by simp
  qed
next
  case (2 n pid)
  then show ?case by simp
next
  case (3 n pid t ts)
  show ?case
  proof (cases "attach_tree n pid t")
    case (Some t1)
    with "3.prems" have ts': "ts' = t1 # ts" by simp
    have ok1: "tree_ok t1" using "3.IH"(1) [OF Some] "3.prems" by simp
    have "root_parent t1 = root_parent t"
      using Some by (cases t) (auto split: if_splits)
    with ok1 ts' "3.prems"(2) show ?thesis by simp
  next
    case None
    with "3.prems" obtain ts1 where a: "attach_list n pid ts = Some ts1" and ts': "ts' = t # ts1" by auto
    from "3.IH"(2) [OF None a] "3.prems"(2,3,4) ts' show ?thesis by simp
  qed
qed

lemma insert_span_ok:
  "\<forall>t \<in> set f. tree_ok t \<Longrightarrow> \<forall>t \<in> set (insert_span sp f). tree_ok t"
proof -
  assume ok: "\<forall>t \<in> set f. tree_ok t"
  define me where "me = Some (ctx_span (sp_context sp))"
  define n where "n = Node sp (filter (\<lambda>t. root_parent t = me) f)"
  define others where "others = filter (\<lambda>t. root_parent t \<noteq> me) f"
  have okn: "tree_ok n" using ok by (auto simp: n_def me_def)
  have oko: "\<forall>t \<in> set others. tree_ok t" using ok by (simp add: others_def)
  have eq: "insert_span sp f =
      (case ctx_parent (sp_context sp) of
         None \<Rightarrow> others @ [n]
       | Some pid \<Rightarrow> (case attach_list n pid others of Some f' \<Rightarrow> f' | None \<Rightarrow> others @ [n]))"
    unfolding insert_span_def Let_def me_def n_def others_def by (rule refl)
  have rp: "root_parent n = ctx_parent (sp_context sp)" by (simp add: n_def)
  show ?thesis
  proof (cases "ctx_parent (sp_context sp)")
    case None
    with eq okn oko show ?thesis by simp
  next
    case (Some pid)
    show ?thesis
    proof (cases "attach_list n pid others")
      case None
      with eq okn oko \<open>ctx_parent (sp_context sp) = Some pid\<close> show ?thesis by simp
    next
      case (Some f')
      with attach_ok(2) [OF Some oko okn] rp \<open>ctx_parent (sp_context sp) = Some pid\<close> eq
      show ?thesis by simp
    qed
  qed
qed

lemma trace_forest_ok: "\<forall>t \<in> set (trace_forest xs). tree_ok t"
proof -
  have "\<forall>t \<in> set f. tree_ok t \<Longrightarrow> \<forall>t \<in> set (fold insert_span xs f). tree_ok t" for f
  proof (induction xs arbitrary: f)
    case Nil
    then show ?case by simp
  next
    case (Cons x xs)
    from Cons.prems have "\<forall>t \<in> set (insert_span x f). tree_ok t" by (rule insert_span_ok)
    then show ?case using Cons.IH by simp
  qed
  from this [of "[]"] show ?thesis by (simp add: trace_forest_def)
qed

end
