(* ===== verification/Collector.thy ===== *)
theory Collector
  imports MemoryStore
begin

text \<open>
  Collection (spec 4.3). main.go wires two collectors: the tracer hands finished spans
  to \<open>appdash.NewRemoteCollector(collectorAdd)\<close>, which sends them over TCP to the
  collector server \<open>appdash.NewServer(l, appdash.NewLocalCollector(store))\<close>, whose
  local collector writes them into the memory store. Both collectors are library code,
  modelled from the spec's design note: the remote side is a bounded queue drained by a
  sender task that retries a failed send up to \<open>rc_max_attempts\<close> times and then drops
  the record (best effort); a record offered to a full queue is dropped at once, so
  \<open>Finish\<close> never blocks. \<open>rc_dropped\<close> records what was dropped, so that the
  accounting of records is a lemma.
\<close>

record remote_collector =
  rc_queue :: "span list"
  rc_capacity :: nat
  rc_attempts :: nat
  rc_max_attempts :: nat
  rc_dropped :: "span list"

definition new_remote_collector :: "nat \<Rightarrow> nat \<Rightarrow> remote_collector" where
  "new_remote_collector cap att =
     \<lparr>rc_queue = [], rc_capacity = cap, rc_attempts = 0, rc_max_attempts = att, rc_dropped = []\<rparr>"

text \<open>\<open>Collect\<close> on the remote collector: enqueue, or drop when the queue is full.\<close>

definition rc_collect :: "span \<Rightarrow> remote_collector \<Rightarrow> remote_collector" where
  "rc_collect sp rc =
     (if length (rc_queue rc) < rc_capacity rc then rc\<lparr>rc_queue := rc_queue rc @ [sp]\<rparr>
      else rc\<lparr>rc_dropped := rc_dropped rc @ [sp]\<rparr>)"

text \<open>The sender task: a successful send hands the head of the queue to the server.\<close>

definition rc_send_ok :: "remote_collector \<Rightarrow> (span \<times> remote_collector) option" where
  "rc_send_ok rc =
     (case rc_queue rc of
        [] \<Rightarrow> None
      | sp # q \<Rightarrow> Some (sp, rc\<lparr>rc_queue := q, rc_attempts := 0\<rparr>))"

text \<open>A failed send counts an attempt; the last allowed attempt drops the record.\<close>

definition rc_send_fail :: "remote_collector \<Rightarrow> remote_collector" where
  "rc_send_fail rc =
     (case rc_queue rc of
        [] \<Rightarrow> rc
      | sp # q \<Rightarrow>
          if rc_max_attempts rc \<le> Suc (rc_attempts rc)
          then rc\<lparr>rc_queue := q, rc_attempts := 0, rc_dropped := rc_dropped rc @ [sp]\<rparr>
          else rc\<lparr>rc_attempts := Suc (rc_attempts rc)\<rparr>)"

text \<open>The server side: \<open>NewLocalCollector(store)\<close> writes each received record to the store.\<close>

definition local_collect :: "span \<Rightarrow> mem_store \<Rightarrow> mem_store" where
  "local_collect sp st = store_collect sp st"

definition rc_inv :: "remote_collector \<Rightarrow> bool" where
  "rc_inv rc \<longleftrightarrow> length (rc_queue rc) \<le> rc_capacity rc \<and> rc_attempts rc < max 1 (rc_max_attempts rc)"

subsection \<open>Lemmas\<close>

lemma rc_collect_accounts:
  "mset (rc_queue (rc_collect sp rc)) + mset (rc_dropped (rc_collect sp rc)) =
     mset (rc_queue rc) + mset (rc_dropped rc) + {#sp#}"
  by (simp add: rc_collect_def)

lemma rc_send_ok_accounts:
  "rc_send_ok rc = Some (sp, rc') \<Longrightarrow>
     mset (rc_queue rc) + mset (rc_dropped rc) = mset (rc_queue rc') + mset (rc_dropped rc') + {#sp#}"
  by (auto simp: rc_send_ok_def split: list.splits)

lemma rc_send_fail_accounts:
  "mset (rc_queue (rc_send_fail rc)) + mset (rc_dropped (rc_send_fail rc)) =
     mset (rc_queue rc) + mset (rc_dropped rc)"
  by (auto simp: rc_send_fail_def split: list.splits)

lemma rc_inv_new [simp]: "rc_inv (new_remote_collector cap att)"
  by (simp add: rc_inv_def new_remote_collector_def)

lemma rc_collect_inv: "rc_inv rc \<Longrightarrow> rc_inv (rc_collect sp rc)"
  by (simp add: rc_inv_def rc_collect_def)

lemma rc_send_ok_inv: "rc_inv rc \<Longrightarrow> rc_send_ok rc = Some (sp, rc') \<Longrightarrow> rc_inv rc'"
  by (auto simp: rc_inv_def rc_send_ok_def split: list.splits)

lemma rc_send_fail_inv: "rc_inv rc \<Longrightarrow> rc_inv (rc_send_fail rc)"
  by (auto simp: rc_inv_def rc_send_fail_def split: list.splits)

lemma rc_collect_keeps [simp]:
  "rc_capacity (rc_collect sp rc) = rc_capacity rc"
  "rc_max_attempts (rc_collect sp rc) = rc_max_attempts rc"
  by (simp_all add: rc_collect_def)

end
