(* ===== verification/Handlers.thy ===== *)
theory Handlers
  imports Tracer Collector
begin

text \<open>
  The program of src/main.go: four HTTP handlers served by one mux, a global tracer that
  reports to a remote collector, and a collector server that writes into a memory store.
  Every handler invocation, and the goroutine \<open>homeHandler\<close> starts, is a thread; a
  thread is at a program point (\<open>pc\<close>) of its handler, and one step of the system runs
  one thread to its next program point, or delivers a request, or lets the remote
  collector's sender make one attempt. Span objects are shared between the handler and
  its goroutine by pointer, so spans live in an explicit heap (\<open>heap\<close>, addresses from
  \<open>next_ref\<close>). Outcomes the environment decides are a \<open>choice\<close> of the step: whether an
  HTTP call succeeds or fails with an error text, and how long \<open>time.Sleep\<close> sleeps
  (\<open>rand.Intn(200)\<close> milliseconds).
  A synchronous call (\<open>http.Get\<close>, \<open>DefaultClient.Do\<close>) that succeeds starts the callee's
  thread through the mux (\<open>route\<close>) and waits for it to be \<open>Done\<close>; one that fails
  starts nothing.
\<close>

subsection \<open>Program points and system state\<close>

datatype pc =
    Index_entry
  | Home_entry
  | Home_inject nat
  | Home_spawn nat carrier
  | Home_get_service nat
  | Home_wait_service nat nat
  | Home_service_error nat string
  | Home_sleep nat
  | Home_finish nat
  | Async_do nat carrier
  | Async_wait nat
  | Async_set_tag nat string
  | Async_log nat string
  | Service_entry string carrier
  | Service_call_db nat
  | Service_wait_db nat nat
  | Service_sleep nat
  | Service_finish nat
  | Db_entry
  | Done
  | Failed error

record sys =
  tr :: tracer
  clock :: time
  heap :: "nat \<rightharpoonup> span"
  next_ref :: nat
  threads :: "nat \<rightharpoonup> pc"
  next_tid :: nat
  rcol :: remote_collector
  store :: mem_store

datatype choice = Go | NetOk | NetErr string | Sleep nat

datatype event = Request string carrier | Run nat choice | Send_ok | Send_fail

subsection \<open>Shared machinery\<close>

definition set_pc :: "nat \<Rightarrow> pc \<Rightarrow> sys \<Rightarrow> sys" where
  "set_pc t p s = s\<lparr>threads := (threads s)(t \<mapsto> p)\<rparr>"

definition spawn :: "pc \<Rightarrow> sys \<Rightarrow> nat \<times> sys" where
  "spawn p s = (next_tid s, s\<lparr>threads := (threads s)(next_tid s \<mapsto> p), next_tid := Suc (next_tid s)\<rparr>)"

definition alloc_span :: "string \<Rightarrow> start_opt \<Rightarrow> sys \<Rightarrow> nat \<times> sys" where
  "alloc_span op opt s =
     (case start_span op opt (clock s) (tr s) of
        (sp, t') \<Rightarrow> (next_ref s, s\<lparr>tr := t', heap := (heap s)(next_ref s \<mapsto> sp),
                                  next_ref := Suc (next_ref s)\<rparr>))"

text \<open>A span method called through the pointer \<open>r\<close>; its error becomes the thread's failure.\<close>

definition span_op :: "nat \<Rightarrow> (span \<Rightarrow> error + span) \<Rightarrow> sys \<Rightarrow> error + sys" where
  "span_op r f s =
     (case heap s r of
        None \<Rightarrow> Inr s
      | Some sp \<Rightarrow> (case f sp of Inl e \<Rightarrow> Inl e | Inr sp' \<Rightarrow> Inr (s\<lparr>heap := (heap s)(r \<mapsto> sp')\<rparr>)))"

text \<open>\<open>span.Finish()\<close>: stamp the span and hand its record to the tracer's collector.\<close>

definition finish_ref :: "nat \<Rightarrow> sys \<Rightarrow> sys" where
  "finish_ref r s =
     (case heap s r of
        None \<Rightarrow> s
      | Some sp \<Rightarrow>
          (case finish_span (clock s) sp of
             (sp', out) \<Rightarrow>
               s\<lparr>heap := (heap s)(r \<mapsto> sp'),
                 rcol := (case out of None \<Rightarrow> rcol s | Some rec \<Rightarrow> rc_collect rec (rcol s))\<rparr>))"

text \<open>Whether a callee thread has returned (the caller of a synchronous call waits for it).\<close>

fun thread_done :: "pc option \<Rightarrow> bool" where
  "thread_done (Some Done) = True"
| "thread_done _ = False"

definition sleep :: "nat \<Rightarrow> sys \<Rightarrow> sys" where
  "sleep d s = s\<lparr>clock := clock s + d\<rparr>"

subsection \<open>The mux (main, lines 111--116)\<close>

text \<open>
  \<open>http.ServeMux\<close>: the patterns \<open>/home\<close>, \<open>/async\<close>, \<open>/service\<close>, \<open>/db\<close> match their
  path exactly, and \<open>/\<close> matches every other path. \<open>/async\<close> and \<open>/service\<close> share
  \<open>serviceHandler\<close>, whose operation name is the request path.
\<close>

definition route :: "string \<Rightarrow> carrier \<Rightarrow> pc" where
  "route path hdr =
     (if path = ''/home'' then Home_entry
      else if path = ''/async'' then Service_entry path hdr
      else if path = ''/service'' then Service_entry path hdr
      else if path = ''/db'' then Db_entry
      else Index_entry)"

subsection \<open>indexHandler and dbHandler\<close>

definition index_entry :: "nat \<Rightarrow> sys \<Rightarrow> sys" where
  "index_entry t s = set_pc t Done s"

definition db_entry :: "nat \<Rightarrow> nat \<Rightarrow> sys \<Rightarrow> sys" where
  "db_entry t d s = set_pc t Done (sleep d s)"

subsection \<open>homeHandler\<close>

text \<open>\<open>span := opentracing.StartSpan("/home")\<close>: a root span; its \<open>Finish\<close> is deferred.\<close>

definition home_entry :: "nat \<Rightarrow> sys \<Rightarrow> sys" where
  "home_entry t s = (case alloc_span ''/home'' NewRoot s of (r, s1) \<Rightarrow> set_pc t (Home_inject r) s1)"

text \<open>
  The header of the \<open>/async\<close> request: \<open>http.NewRequest\<close> makes an empty header, into
  which the span's context is injected. Injection into a text map cannot fail, so the
  \<open>log.Fatalf\<close> branch is unreachable.
\<close>

definition async_request_header :: "span_context \<Rightarrow> carrier" where
  "async_request_header ctx = inject_ctx ctx Map.empty"

definition home_inject :: "nat \<Rightarrow> nat \<Rightarrow> sys \<Rightarrow> sys" where
  "home_inject t r s =
     (case heap s r of
        None \<Rightarrow> s
      | Some sp \<Rightarrow> set_pc t (Home_spawn r (async_request_header (sp_context sp))) s)"

text \<open>\<open>go func() { ... }()\<close>: the goroutine gets the span pointer and the request.\<close>

definition home_spawn :: "nat \<Rightarrow> nat \<Rightarrow> carrier \<Rightarrow> sys \<Rightarrow> sys" where
  "home_spawn t r hdr s = (case spawn (Async_do r hdr) s of (u, s1) \<Rightarrow> set_pc t (Home_get_service r) s1)"

text \<open>\<open>http.Get("http://localhost:8080/service")\<close>: a new request with no trace header.\<close>

definition home_get_service :: "nat \<Rightarrow> nat \<Rightarrow> string option \<Rightarrow> sys \<Rightarrow> sys" where
  "home_get_service t r res s =
     (case res of
        None \<Rightarrow> (case spawn (route ''/service'' Map.empty) s of (u, s1) \<Rightarrow> set_pc t (Home_wait_service r u) s1)
      | Some e \<Rightarrow> set_pc t (Home_service_error r e) s)"

text \<open>\<open>ext.Error.Set(span, true)\<close> then \<open>span.LogEventWithPayload("Get service error ", err)\<close>.\<close>

definition home_service_error :: "nat \<Rightarrow> nat \<Rightarrow> string \<Rightarrow> sys \<Rightarrow> sys" where
  "home_service_error t r e s =
     (case span_op r (set_tag ''error'' (TagBool True)) s of
        Inl err \<Rightarrow> set_pc t (Failed err) s
      | Inr s1 \<Rightarrow>
          (case span_op r (log_event_with_payload (clock s1) ''Get service error '' e) s1 of
             Inl err \<Rightarrow> set_pc t (Failed err) s1
           | Inr s2 \<Rightarrow> set_pc t (Home_sleep r) s2))"

definition home_sleep :: "nat \<Rightarrow> nat \<Rightarrow> nat \<Rightarrow> sys \<Rightarrow> sys" where
  "home_sleep t r d s = set_pc t (Home_finish r) (sleep d s)"

text \<open>The deferred \<open>span.Finish()\<close> runs when the handler returns.\<close>

definition home_finish :: "nat \<Rightarrow> nat \<Rightarrow> sys \<Rightarrow> sys" where
  "home_finish t r s = set_pc t Done (finish_ref r s)"

subsection \<open>The goroutine of homeHandler\<close>

definition async_do :: "nat \<Rightarrow> nat \<Rightarrow> carrier \<Rightarrow> string option \<Rightarrow> sys \<Rightarrow> sys" where
  "async_do t r hdr res s =
     (case res of
        None \<Rightarrow> (case spawn (route ''/async'' hdr) s of (u, s1) \<Rightarrow> set_pc t (Async_wait u) s1)
      | Some e \<Rightarrow> set_pc t (Async_set_tag r e) s)"

definition async_set_tag :: "nat \<Rightarrow> nat \<Rightarrow> string \<Rightarrow> sys \<Rightarrow> sys" where
  "async_set_tag t r e s =
     (case span_op r (set_tag ''error'' (TagBool True)) s of
        Inl err \<Rightarrow> set_pc t (Failed err) s
      | Inr s1 \<Rightarrow> set_pc t (Async_log r e) s1)"

definition async_log :: "nat \<Rightarrow> nat \<Rightarrow> string \<Rightarrow> sys \<Rightarrow> sys" where
  "async_log t r e s =
     (case span_op r (log_event (clock s) (''GET /async error: '' @ e)) s of
        Inl err \<Rightarrow> set_pc t (Failed err) s
      | Inr s1 \<Rightarrow> set_pc t Done s1)"

subsection \<open>serviceHandler\<close>

text \<open>
  Lines 55--61: extract the caller's context from the request header; on any error
  start a root span, otherwise a child of the extracted context.
\<close>

definition service_start_opt :: "carrier \<Rightarrow> start_opt" where
  "service_start_opt hdr = (case extract_ctx hdr of Inl _ \<Rightarrow> NewRoot | Inr ctx \<Rightarrow> ChildOf ctx)"

definition service_entry :: "nat \<Rightarrow> string \<Rightarrow> carrier \<Rightarrow> sys \<Rightarrow> sys" where
  "service_entry t path hdr s =
     (case alloc_span path (service_start_opt hdr) s of (r, s1) \<Rightarrow> set_pc t (Service_call_db r) s1)"

text \<open>\<open>http.Get("http://localhost:8080/db")\<close>: no trace header, and the error is ignored.\<close>

definition service_call_db :: "nat \<Rightarrow> nat \<Rightarrow> string option \<Rightarrow> sys \<Rightarrow> sys" where
  "service_call_db t r res s =
     (case res of
        None \<Rightarrow> (case spawn (route ''/db'' Map.empty) s of (u, s1) \<Rightarrow> set_pc t (Service_wait_db r u) s1)
      | Some _ \<Rightarrow> set_pc t (Service_sleep r) s)"

definition service_sleep :: "nat \<Rightarrow> nat \<Rightarrow> nat \<Rightarrow> sys \<Rightarrow> sys" where
  "service_sleep t r d s = set_pc t (Service_finish r) (sleep d s)"

definition service_finish :: "nat \<Rightarrow> nat \<Rightarrow> sys \<Rightarrow> sys" where
  "service_finish t r s = set_pc t Done (finish_ref r s)"

subsection \<open>Threads, events and runs\<close>

text \<open>
  One step of a thread at program point \<open>p\<close> with the environment's choice \<open>c\<close>:
  \<open>None\<close> when the thread cannot take that step (it waits for a callee, it has ended,
  or the choice does not fit the program point).
\<close>

fun pc_step :: "nat \<Rightarrow> pc \<Rightarrow> choice \<Rightarrow> sys \<Rightarrow> sys option" where
  "pc_step t Index_entry c s = (if c = Go then Some (index_entry t s) else None)"
| "pc_step t Db_entry c s = (case c of Sleep d \<Rightarrow> Some (db_entry t d s) | _ \<Rightarrow> None)"
| "pc_step t Home_entry c s = (if c = Go then Some (home_entry t s) else None)"
| "pc_step t (Home_inject r) c s = (if c = Go then Some (home_inject t r s) else None)"
| "pc_step t (Home_spawn r hdr) c s = (if c = Go then Some (home_spawn t r hdr s) else None)"
| "pc_step t (Home_get_service r) c s =
     (case c of NetOk \<Rightarrow> Some (home_get_service t r None s)
      | NetErr e \<Rightarrow> Some (home_get_service t r (Some e) s) | _ \<Rightarrow> None)"
| "pc_step t (Home_wait_service r u) c s =
     (if c = Go \<and> thread_done (threads s u) then Some (set_pc t (Home_sleep r) s) else None)"
| "pc_step t (Home_service_error r e) c s = (if c = Go then Some (home_service_error t r e s) else None)"
| "pc_step t (Home_sleep r) c s = (case c of Sleep d \<Rightarrow> Some (home_sleep t r d s) | _ \<Rightarrow> None)"
| "pc_step t (Home_finish r) c s = (if c = Go then Some (home_finish t r s) else None)"
| "pc_step t (Async_do r hdr) c s =
     (case c of NetOk \<Rightarrow> Some (async_do t r hdr None s)
      | NetErr e \<Rightarrow> Some (async_do t r hdr (Some e) s) | _ \<Rightarrow> None)"
| "pc_step t (Async_wait u) c s =
     (if c = Go \<and> thread_done (threads s u) then Some (set_pc t Done s) else None)"
| "pc_step t (Async_set_tag r e) c s = (if c = Go then Some (async_set_tag t r e s) else None)"
| "pc_step t (Async_log r e) c s = (if c = Go then Some (async_log t r e s) else None)"
| "pc_step t (Service_entry path hdr) c s = (if c = Go then Some (service_entry t path hdr s) else None)"
| "pc_step t (Service_call_db r) c s =
     (case c of NetOk \<Rightarrow> Some (service_call_db t r None s)
      | NetErr e \<Rightarrow> Some (service_call_db t r (Some e) s) | _ \<Rightarrow> None)"
| "pc_step t (Service_wait_db r u) c s =
     (if c = Go \<and> thread_done (threads s u) then Some (set_pc t (Service_sleep r) s) else None)"
| "pc_step t (Service_sleep r) c s = (case c of Sleep d \<Rightarrow> Some (service_sleep t r d s) | _ \<Rightarrow> None)"
| "pc_step t (Service_finish r) c s = (if c = Go then Some (service_finish t r s) else None)"
| "pc_step t Done c s = None"
| "pc_step t (Failed e) c s = None"

text \<open>
  A system step: an inbound request starts a handler thread (\<open>http.ListenAndServe\<close>);
  a thread runs; the remote collector's sender delivers the head of its queue to the
  collector server (\<open>go cs.Start()\<close>), which writes it to the store, or fails once.
\<close>

fun step :: "event \<Rightarrow> sys \<Rightarrow> sys option" where
  "step (Request path hdr) s = Some (snd (spawn (route path hdr) s))"
| "step (Run t c) s = (case threads s t of None \<Rightarrow> None | Some p \<Rightarrow> pc_step t p c s)"
| "step Send_ok s =
     (case rc_send_ok (rcol s) of
        None \<Rightarrow> None
      | Some (sp, rc') \<Rightarrow> Some (s\<lparr>rcol := rc', store := local_collect sp (store s)\<rparr>))"
| "step Send_fail s = (if rc_queue (rcol s) = [] then None else Some (s\<lparr>rcol := rc_send_fail (rcol s)\<rparr>))"

text \<open>Sleeps are \<open>rand.Intn(200)\<close> milliseconds.\<close>

fun event_ok :: "event \<Rightarrow> bool" where
  "event_ok (Run t (Sleep d)) \<longleftrightarrow> d < 200"
| "event_ok _ \<longleftrightarrow> True"

fun run :: "event list \<Rightarrow> sys \<Rightarrow> sys option" where
  "run [] s = Some s"
| "run (e # es) s = (if event_ok e then (case step e s of None \<Rightarrow> None | Some s' \<Rightarrow> run es s') else None)"

subsection \<open>The composition root (main, lines 76--107)\<close>

text \<open>
  \<open>main\<close> makes an empty memory store, a collector server writing to it through a local
  collector, a remote collector addressed to that server, and the global tracer over the
  remote collector. The store bound, the queue capacity, the send attempts and the
  tracer's random source are parameters of the model: the code sets none of them.
\<close>

definition main_init :: "(nat \<Rightarrow> 64 word) \<Rightarrow> nat \<Rightarrow> nat \<Rightarrow> nat \<Rightarrow> sys" where
  "main_init gen cap qcap att =
     \<lparr>tr = \<lparr>id_gen = gen, draws = 0\<rparr>, clock = 0, heap = Map.empty, next_ref = 0,
      threads = Map.empty, next_tid = 0, rcol = new_remote_collector qcap att,
      store = empty_store cap\<rparr>"

inductive reachable :: "sys \<Rightarrow> sys \<Rightarrow> bool" where
  init: "reachable s0 s0"
| step: "reachable s0 s \<Longrightarrow> event_ok e \<Longrightarrow> step e s = Some s' \<Longrightarrow> reachable s0 s'"

text \<open>The definitions a concrete run unfolds when it is evaluated by the simplifier.\<close>

lemmas handler_defs = main_init_def route_def set_pc_def spawn_def alloc_span_def span_op_def
  finish_ref_def sleep_def index_entry_def db_entry_def home_entry_def async_request_header_def
  home_inject_def home_spawn_def home_get_service_def home_service_error_def home_sleep_def
  home_finish_def async_do_def async_set_tag_def async_log_def service_start_opt_def
  service_entry_def service_call_db_def service_sleep_def service_finish_def
  new_remote_collector_def empty_store_def rc_collect_def rc_send_ok_def rc_send_fail_def
  local_collect_def store_collect_def evict_oldest_def extract_ctx_def new_span_def set_tag_def
  log_event_def log_event_with_payload_def log_with_def is_finished_def

lemma run_reachable: "reachable s0 s \<Longrightarrow> run es s = Some s' \<Longrightarrow> reachable s0 s'"
proof (induction es arbitrary: s)
  case Nil
  then show ?case by simp
next
  case (Cons e es)
  then obtain s1 where ok: "event_ok e" and st: "step e s = Some s1" and r: "run es s1 = Some s'"
    by (auto split: if_splits option.splits)
  from Cons.prems(1) ok st have "reachable s0 s1" by (rule reachable.step)
  then show ?case using r by (rule Cons.IH)
qed

subsection \<open>Lemmas\<close>

text \<open>
  A property of states that every primitive of the handlers keeps is kept by every step
  of a thread: the handlers change the state only through these primitives.
\<close>

lemma pc_step_preserves:
  assumes setpc: "\<And>s t q. P s \<Longrightarrow> P (set_pc t q s)"
    and spw: "\<And>s q u s1. spawn q s = (u, s1) \<Longrightarrow> P s \<Longrightarrow> P s1"
    and alloc: "\<And>s op opt r s1. alloc_span op opt s = (r, s1) \<Longrightarrow> P s \<Longrightarrow> P s1"
    and tag: "\<And>s r k v s1. span_op r (set_tag k v) s = Inr s1 \<Longrightarrow> P s \<Longrightarrow> P s1"
    and log: "\<And>s r now msg s1. span_op r (log_event now msg) s = Inr s1 \<Longrightarrow> P s \<Longrightarrow> P s1"
    and logp: "\<And>s r now msg p s1. span_op r (log_event_with_payload now msg p) s = Inr s1 \<Longrightarrow> P s \<Longrightarrow> P s1"
    and fin: "\<And>s r. P s \<Longrightarrow> P (finish_ref r s)"
    and slp: "\<And>s d. P s \<Longrightarrow> P (sleep d s)"
    and st: "pc_step t p c s = Some s'" and p: "P s"
  shows "P s'"
  using st p
  by (cases p) (auto simp: index_entry_def db_entry_def home_entry_def home_inject_def home_spawn_def
      home_get_service_def home_service_error_def home_sleep_def home_finish_def async_do_def
      async_set_tag_def async_log_def service_entry_def service_call_db_def service_sleep_def
      service_finish_def
      intro: setpc spw alloc tag log logp fin slp split: choice.splits if_splits option.splits sum.splits prod.splits)

lemma pc_step_rc_config:
  "pc_step t p c s = Some s' \<Longrightarrow> rc_max_attempts (rcol s') = rc_max_attempts (rcol s)"
  by (rule pc_step_preserves [where P = "\<lambda>x. rc_max_attempts (rcol x) = rc_max_attempts (rcol s)"
        and t = t and p = p and c = c and s = s])
     (auto simp: set_pc_def spawn_def alloc_span_def span_op_def finish_ref_def sleep_def
       split: prod.splits option.splits sum.splits)

lemma pc_step_rc_capacity:
  "pc_step t p c s = Some s' \<Longrightarrow> rc_capacity (rcol s') = rc_capacity (rcol s)"
  by (rule pc_step_preserves [where P = "\<lambda>x. rc_capacity (rcol x) = rc_capacity (rcol s)"
        and t = t and p = p and c = c and s = s])
     (auto simp: set_pc_def spawn_def alloc_span_def span_op_def finish_ref_def sleep_def
       split: prod.splits option.splits sum.splits)

lemma pc_step_store:
  "pc_step t p c s = Some s' \<Longrightarrow> store s' = store s"
  by (rule pc_step_preserves [where P = "\<lambda>x. store x = store s" and t = t and p = p and c = c and s = s])
     (auto simp: set_pc_def spawn_def alloc_span_def span_op_def finish_ref_def sleep_def
       split: prod.splits option.splits sum.splits)

lemma step_rc_config:
  "step e s = Some s' \<Longrightarrow>
     rc_max_attempts (rcol s') = rc_max_attempts (rcol s) \<and> rc_capacity (rcol s') = rc_capacity (rcol s) \<and>
     max_traces (store s') = max_traces (store s)"
  by (cases e) (auto simp: spawn_def rc_send_ok_def rc_send_fail_def local_collect_def
      split: option.splits list.splits if_splits intro: pc_step_rc_config pc_step_rc_capacity
      dest: pc_step_store)

lemma reachable_rc_config:
  "reachable s0 s \<Longrightarrow>
     rc_max_attempts (rcol s) = rc_max_attempts (rcol s0) \<and> rc_capacity (rcol s) = rc_capacity (rcol s0) \<and>
     max_traces (store s) = max_traces (store s0)"
  by (induction rule: reachable.induct) (auto dest: step_rc_config)

text \<open>
  The sender's retry window: a record at the head of the queue after \<open>a\<close> failed attempts
  is dropped by the \<open>k+1\<close>-th further failure when \<open>a + k + 1\<close> is the attempt bound.
\<close>

lemma run_send_fail_drop:
  "rc_queue (rcol s) = sp # q \<Longrightarrow> rc_attempts (rcol s) + Suc k = rc_max_attempts (rcol s) \<Longrightarrow>
     run (replicate (Suc k) Send_fail) s =
       Some (s\<lparr>rcol := (rcol s)\<lparr>rc_queue := q, rc_attempts := 0, rc_dropped := rc_dropped (rcol s) @ [sp]\<rparr>\<rparr>)"
proof (induction k arbitrary: s)
  case 0
  then show ?case by (simp add: rc_send_fail_def)
next
  case (Suc k)
  let ?s1 = "s\<lparr>rcol := (rcol s)\<lparr>rc_attempts := Suc (rc_attempts (rcol s))\<rparr>\<rparr>"
  have st: "step Send_fail s = Some ?s1" using Suc.prems by (simp add: rc_send_fail_def)
  have "run (replicate (Suc k) Send_fail) ?s1 =
          Some (?s1\<lparr>rcol := (rcol ?s1)\<lparr>rc_queue := q, rc_attempts := 0, rc_dropped := rc_dropped (rcol ?s1) @ [sp]\<rparr>\<rparr>)"
    using Suc.prems by (intro Suc.IH) simp_all
  with st show ?case by simp
qed

lemma reachable_imp_run: "reachable s0 s \<Longrightarrow> \<exists>es. run es s0 = Some s"
proof (induction rule: reachable.induct)
  case (init x)
  have "run [] x = Some x" by simp
  then show ?case by blast
next
  case (step x s e s')
  then obtain es where r: "run es x = Some s" by blast
  have "run (es @ [e]) x = Some s'"
    using r step.hyps(2,3) by (induction es arbitrary: x) (auto split: option.splits if_splits)
  then show ?case by blast
qed

lemma run_append:
  "run (es @ es') s = (case run es s of None \<Rightarrow> None | Some s1 \<Rightarrow> run es' s1)"
  by (induction es arbitrary: s) (auto split: option.splits)


lemma extract_async_header [simp]:
  "extract_ctx (async_request_header ctx) = Inr (ctx\<lparr>ctx_parent := None\<rparr>)"
  by (cases ctx) (simp add: async_request_header_def extract_inject)

lemma extract_ctx_upd_unrelated:
  "\<not> reserved_key k \<Longrightarrow> extract_ctx (hdr(k := v)) = extract_ctx hdr"
proof -
  assume nr: "\<not> reserved_key k"
  then have tk: "(hdr(k := v)) trace_key = hdr trace_key" and sk: "(hdr(k := v)) span_key = hdr span_key"
    using not_reserved_key [OF nr] by auto
  have bag: "(\<lambda>b. (hdr(k := v)) (baggage_prefix @ b)) = (\<lambda>b. hdr (baggage_prefix @ b))"
  proof (rule ext)
    fix b
    have "k \<noteq> baggage_prefix @ b" by (rule not_reserved_prefixed [OF nr])
    then show "(hdr(k := v)) (baggage_prefix @ b) = hdr (baggage_prefix @ b)" by simp
  qed
  show ?thesis unfolding extract_ctx_def tk sk bag ..
qed

lemma service_entry_span:
  "heap (service_entry t path hdr s) (next_ref s) =
     Some (fst (start_span path (service_start_opt hdr) (clock s) (tr s)))"
  by (simp add: service_entry_def alloc_span_def set_pc_def split: prod.split)

lemma service_entry_tracer:
  "tr (service_entry t path hdr s) = snd (start_span path (service_start_opt hdr) (clock s) (tr s))"
  by (simp add: service_entry_def alloc_span_def set_pc_def split: prod.split)

lemma finish_ref_finished:
  "heap s r = Some sp \<Longrightarrow> sp_finish sp = Some f \<Longrightarrow> finish_ref r s = s"
  by (simp add: finish_ref_def map_upd_triv)

lemma finish_ref_fresh:
  "heap s r = Some sp \<Longrightarrow> sp_finish sp = None \<Longrightarrow>
     finish_ref r s = s\<lparr>heap := (heap s)(r \<mapsto> sp\<lparr>sp_finish := Some (clock s)\<rparr>),
                       rcol := rc_collect (sp\<lparr>sp_finish := Some (clock s)\<rparr>) (rcol s)\<rparr>"
  by (simp add: finish_ref_def)

lemma sleep_simps [simp]:
  "heap (sleep d s) = heap s" "rcol (sleep d s) = rcol s" "clock (sleep d s) = clock s + d"
  by (simp_all add: sleep_def)

text \<open>The sender drains its queue: one successful send per queued record.\<close>

lemma run_send_ok_drain:
  "rc_queue (rcol s) = xs \<Longrightarrow>
     \<exists>s'. run (replicate (length xs) Send_ok) s = Some s' \<and>
          store s' = fold local_collect xs (store s) \<and> rc_queue (rcol s') = [] \<and>
          threads s' = threads s \<and> heap s' = heap s"
proof (induction xs arbitrary: s)
  case Nil
  then show ?case by simp
next
  case (Cons x xs)
  let ?s1 = "s\<lparr>rcol := rcol s\<lparr>rc_queue := xs, rc_attempts := 0\<rparr>, store := local_collect x (store s)\<rparr>"
  have st: "step Send_ok s = Some ?s1" using Cons.prems by (simp add: rc_send_ok_def)
  have "rc_queue (rcol ?s1) = xs" by simp
  then obtain s' where r: "run (replicate (length xs) Send_ok) ?s1 = Some s'"
      and p: "store s' = fold local_collect xs (store ?s1)" "rc_queue (rcol s') = []"
             "threads s' = threads ?s1" "heap s' = heap ?s1"
    using Cons.IH by blast
  from st r p show ?case by simp
qed

subsection \<open>Propagation from homeHandler to serviceHandler\<close>

text \<open>
  C2. Round trip across the /async hop: the header homeHandler builds from its span's
  context, read by serviceHandler, makes serviceHandler start a child of that context
  (the parent field, which the wire does not carry, is dropped).
\<close>

theorem async_header_roundtrip:
  "service_start_opt (async_request_header ctx) = ChildOf (ctx\<lparr>ctx_parent := None\<rparr>)"
  by (simp add: service_start_opt_def)

text \<open>
  C3. The span serviceHandler starts for the /async request is a child of the /home span:
  same trace identifier, parent the /home span's identifier, the same baggage, a freshly
  drawn span identifier, the request path as operation name, the current time as start.
\<close>

theorem service_span_child_of_home:
  "\<exists>sp. heap (service_entry t path (async_request_header ctx) s) (next_ref s) = Some sp \<and>
        ctx_trace (sp_context sp) = ctx_trace ctx \<and>
        ctx_parent (sp_context sp) = Some (ctx_span ctx) \<and>
        ctx_baggage (sp_context sp) = ctx_baggage ctx \<and>
        ctx_span (sp_context sp) = id_gen (tr s) (draws (tr s)) \<and>
        sp_operation sp = path \<and> sp_start sp = clock s"
  by (simp add: service_entry_span service_start_opt_def)

text \<open>
  C11. When the request header yields no context (no identity keys, or corrupted ones),
  serviceHandler silently falls back to a new root span: fresh trace identifier, no
  parent, empty baggage.
\<close>

theorem service_span_root_fallback:
  assumes "extract_ctx hdr = Inl e"
  shows "\<exists>sp. heap (service_entry t path hdr s) (next_ref s) = Some sp \<and>
        ctx_trace (sp_context sp) = id_gen (tr s) (draws (tr s)) \<and>
        ctx_parent (sp_context sp) = None \<and> ctx_baggage (sp_context sp) = Map.empty"
  using assms by (simp add: service_entry_span service_start_opt_def)

theorem service_span_root_fallback_witness:
  "extract_ctx Map.empty = Inl ErrorContextNotFound \<and>
   (\<exists>sp. heap (service_entry 0 ''/service'' Map.empty (main_init (\<lambda>n. word_of_nat (Suc n)) 10 10 3)) 0 = Some sp \<and>
        ctx_trace (sp_context sp) = 1 \<and> ctx_parent (sp_context sp) = None \<and>
        ctx_baggage (sp_context sp) = Map.empty)"
proof -
  have e: "extract_ctx Map.empty = Inl ErrorContextNotFound" by (simp add: extract_ctx_def)
  show ?thesis
    using e service_span_root_fallback [OF e, of 0 "''/service''" "main_init (\<lambda>n. word_of_nat (Suc n)) 10 10 3"]
    by (simp add: main_init_def)
qed

text \<open>
  C12. A header whose trace identifier does not parse is reported as corrupted, and
  serviceHandler then starts a root span, losing the caller's trace.
\<close>

theorem service_corrupted_header_root:
  assumes "hdr trace_key = Some v" and "parse_id v = None"
  shows "extract_ctx hdr = Inl ErrorContextCorrupted \<and> service_start_opt hdr = NewRoot"
  using assms by (simp add: extract_ctx_def service_start_opt_def split: option.split)

theorem service_corrupted_header_root_witness:
  "[trace_key \<mapsto> ''zz''] trace_key = Some ''zz'' \<and> parse_id ''zz'' = None \<and>
   extract_ctx ([trace_key \<mapsto> ''zz'']) = Inl ErrorContextCorrupted \<and>
   service_start_opt ([trace_key \<mapsto> ''zz'']) = NewRoot"
proof -
  have p: "parse_id ''zz'' = None" by (simp add: parse_id_def parse_hex_def digit_val_def)
  show ?thesis using p service_corrupted_header_root [of "[trace_key \<mapsto> ''zz'']" "''zz''"] by simp
qed

text \<open>
  C13. serviceHandler's choice of parent ignores every header that is not reserved by the
  propagation format (the HTTP client's own headers, say).
\<close>

theorem service_start_ignores_unrelated:
  "\<not> reserved_key k \<Longrightarrow> service_start_opt (hdr(k := v)) = service_start_opt hdr"
  by (simp add: service_start_opt_def extract_ctx_upd_unrelated)

theorem service_start_ignores_unrelated_witness:
  "\<not> reserved_key ''User-Agent'' \<and>
   service_start_opt (Map.empty(''User-Agent'' := Some ''Go-http-client/1.1'')) = NewRoot"
proof -
  have nr: "\<not> reserved_key ''User-Agent''"
    by (simp add: reserved_key_def trace_key_def span_key_def identity_prefix_def baggage_prefix_def)
  have e: "service_start_opt Map.empty = NewRoot" by (simp add: service_start_opt_def extract_ctx_def)
  show ?thesis
    using nr e service_start_ignores_unrelated [OF nr, of Map.empty "Some ''Go-http-client/1.1''"]
    by simp
qed

text \<open>
  C14. The identity headers on the /async request are hexadecimal texts of at most 16
  characters that parse back to the span's trace and span identifiers.
\<close>

theorem async_header_identity_bounds:
  "\<exists>tv sv. async_request_header ctx trace_key = Some tv \<and> async_request_header ctx span_key = Some sv \<and>
     length tv \<le> 16 \<and> length sv \<le> 16 \<and>
     parse_id tv = Some (ctx_trace ctx) \<and> parse_id sv = Some (ctx_span ctx)"
  by (simp add: async_request_header_def format_id_length)

subsection \<open>Finishing\<close>

text \<open>
  C4. Finish is first-wins: calling \<open>Finish\<close> twice on a span, with any delay between
  the calls, hands exactly one record to the collector (queued or, if the queue is full,
  dropped), the span stamped with the time of the first call; on a span already
  finished it hands over nothing.
\<close>

theorem finish_ref_exactly_once:
  "mset (rc_queue (rcol (finish_ref r (sleep d (finish_ref r s))))) +
   mset (rc_dropped (rcol (finish_ref r (sleep d (finish_ref r s))))) =
     mset (rc_queue (rcol s)) + mset (rc_dropped (rcol s)) +
     (case heap s r of
        None \<Rightarrow> {#}
      | Some sp \<Rightarrow> if sp_finish sp = None then {#sp\<lparr>sp_finish := Some (clock s)\<rparr>#} else {#})"
proof (cases "heap s r")
  case None
  then show ?thesis by (simp add: finish_ref_def)
next
  case (Some sp)
  show ?thesis
  proof (cases "sp_finish sp")
    case None
    let ?sp' = "sp\<lparr>sp_finish := Some (clock s)\<rparr>"
    have h: "heap (sleep d (finish_ref r s)) r = Some ?sp'" "sp_finish ?sp' = Some (clock s)"
      using Some None by (simp_all add: finish_ref_fresh)
    then have "finish_ref r (sleep d (finish_ref r s)) = sleep d (finish_ref r s)"
      by (rule finish_ref_finished)
    with Some None show ?thesis by (simp add: finish_ref_fresh rc_collect_accounts)
  next
    case (Some f)
    with \<open>heap s r = Some sp\<close> have "finish_ref r s = s" by (rule finish_ref_finished)
    moreover have "finish_ref r (sleep d s) = sleep d s"
      using \<open>heap s r = Some sp\<close> Some by (intro finish_ref_finished [of _ _ sp f]) simp_all
    ultimately show ?thesis using \<open>heap s r = Some sp\<close> Some by simp
  qed
qed


subsection \<open>The untraced /service call\<close>

text \<open>
  C8. homeHandler's \<open>http.Get("/service")\<close> sends no trace header: when the call
  succeeds, the thread it starts is serviceHandler on an empty header, whose extraction
  finds no context, so serviceHandler starts a new root span instead of a child of /home.
\<close>

theorem home_service_call_untraced:
  assumes "t < next_tid s"
  shows "threads (home_get_service t r None s) (next_tid s) = Some (Service_entry ''/service'' Map.empty) \<and>
         threads (home_get_service t r None s) t = Some (Home_wait_service r (next_tid s)) \<and>
         service_start_opt Map.empty = NewRoot"
  using assms
  by (simp add: home_get_service_def spawn_def set_pc_def route_def service_start_opt_def extract_ctx_def)

theorem home_service_call_untraced_witness:
  "(0::nat) < next_tid (snd (spawn Home_entry (main_init (\<lambda>n. word_of_nat n) 1 1 1))) \<and>
   threads (home_get_service 0 0 None (snd (spawn Home_entry (main_init (\<lambda>n. word_of_nat n) 1 1 1)))) 1 =
     Some (Service_entry ''/service'' Map.empty) \<and>
   service_start_opt Map.empty = NewRoot"
proof -
  let ?s = "snd (spawn Home_entry (main_init (\<lambda>n. word_of_nat n) 1 1 1))"
  have n: "next_tid ?s = 1" and t: "(0::nat) < next_tid ?s" by (simp_all add: spawn_def main_init_def)
  show ?thesis using home_service_call_untraced [OF t, of 0] n by simp
qed

end
