(* ===== verification/Invariants.thy ===== *)
theory Invariants
  imports Handlers
begin

text \<open>
  The invariant of the whole program (src/main.go with the library it calls): the
  memory store and the remote collector keep their own invariants; every span in the
  heap is well formed (a finish time is not before the start time) and started no later
  than the clock; every record queued, dropped or stored is a finished, well-formed span.
  Each primitive of the handler model keeps it, hence every handler step, hence every
  step of the system, hence every state reachable from \<open>main_init\<close>.
\<close>

definition rec_ok :: "span \<Rightarrow> bool" where
  "rec_ok sp \<longleftrightarrow> sp_finish sp \<noteq> None \<and> span_wf sp"

definition stored_spans :: "mem_store \<Rightarrow> span set" where
  "stored_spans st = \<Union> (set ` ran (buckets st))"

definition sys_inv :: "sys \<Rightarrow> bool" where
  "sys_inv s \<longleftrightarrow>
     store_inv (store s) \<and> rc_inv (rcol s) \<and>
     (\<forall>r sp. heap s r = Some sp \<longrightarrow> span_wf sp \<and> sp_start sp \<le> clock s) \<and>
     (\<forall>sp \<in> set (rc_queue (rcol s)) \<union> set (rc_dropped (rcol s)) \<union> stored_spans (store s). rec_ok sp)"

text \<open>A span mutation that leaves the start and finish times alone.\<close>

definition keeps_times :: "(span \<Rightarrow> error + span) \<Rightarrow> bool" where
  "keeps_times f \<longleftrightarrow> (\<forall>sp sp'. f sp = Inr sp' \<longrightarrow> sp_start sp' = sp_start sp \<and> sp_finish sp' = sp_finish sp)"

subsection \<open>Primitives\<close>

lemma keeps_times_ops [simp]:
  "keeps_times (set_tag k v)" "keeps_times (log_event now msg)"
  "keeps_times (log_event_with_payload now msg p)"
  by (simp_all add: keeps_times_def log_event_def log_event_with_payload_def set_tag_Inr log_with_Inr)

lemma sys_inv_set_pc [simp]: "sys_inv (set_pc t p s) = sys_inv s"
  by (simp add: sys_inv_def set_pc_def)

lemma sys_inv_spawn [simp]: "sys_inv (snd (spawn p s)) = sys_inv s"
  by (simp add: sys_inv_def spawn_def)

lemma sys_inv_spawn_pair: "spawn p s = (u, s1) \<Longrightarrow> sys_inv s1 = sys_inv s"
  using sys_inv_spawn [of p s] by simp

lemma sys_inv_sleep: "sys_inv s \<Longrightarrow> sys_inv (sleep d s)"
  by (fastforce simp: sys_inv_def sleep_def)

lemma span_wf_start_span: "span_wf (fst (start_span op opt now t)) \<and> sp_start (fst (start_span op opt now t)) = now"
  by (cases opt) simp_all

lemma sys_inv_heap_upd:
  "sys_inv s \<Longrightarrow> span_wf sp \<Longrightarrow> sp_start sp \<le> clock s \<Longrightarrow> sys_inv (s\<lparr>heap := (heap s)(r \<mapsto> sp)\<rparr>)"
  unfolding sys_inv_def by simp

lemma sys_inv_tr_next [simp]: "sys_inv (s\<lparr>tr := x, next_ref := n\<rparr>) = sys_inv s"
  by (simp add: sys_inv_def)

lemma sys_inv_rcol_upd:
  "sys_inv s \<Longrightarrow> rc_inv rc \<Longrightarrow>
     set (rc_queue rc) \<union> set (rc_dropped rc) \<subseteq> set (rc_queue (rcol s)) \<union> set (rc_dropped (rcol s)) \<union> Collect rec_ok \<Longrightarrow>
     sys_inv (s\<lparr>rcol := rc\<rparr>)"
  unfolding sys_inv_def by auto

lemma sys_inv_alloc_span: "alloc_span op opt s = (r, s1) \<Longrightarrow> sys_inv s \<Longrightarrow> sys_inv s1"
proof -
  assume a: "alloc_span op opt s = (r, s1)" and inv: "sys_inv s"
  obtain sp t' where ss: "start_span op opt (clock s) (tr s) = (sp, t')"
    by (cases "start_span op opt (clock s) (tr s)")
  with a have s1: "s1 = (s\<lparr>heap := (heap s)(next_ref s \<mapsto> sp)\<rparr>)\<lparr>tr := t', next_ref := Suc (next_ref s)\<rparr>"
    by (auto simp: alloc_span_def)
  from span_wf_start_span [of op opt "clock s" "tr s"] ss have "span_wf sp" "sp_start sp \<le> clock s"
    by simp_all
  with inv have "sys_inv (s\<lparr>heap := (heap s)(next_ref s \<mapsto> sp)\<rparr>)" by (rule sys_inv_heap_upd)
  then show ?thesis unfolding s1 sys_inv_tr_next .
qed

lemma sys_inv_span_op: "span_op r f s = Inr s1 \<Longrightarrow> keeps_times f \<Longrightarrow> sys_inv s \<Longrightarrow> sys_inv s1"
proof -
  assume a: "span_op r f s = Inr s1" and k: "keeps_times f" and inv: "sys_inv s"
  show ?thesis
  proof (cases "heap s r")
    case None
    with a inv show ?thesis by (simp add: span_op_def)
  next
    case (Some sp)
    with a obtain sp' where f: "f sp = Inr sp'" and s1: "s1 = s\<lparr>heap := (heap s)(r \<mapsto> sp')\<rparr>"
      by (auto simp: span_op_def split: sum.splits)
    from k f have "sp_start sp' = sp_start sp" "sp_finish sp' = sp_finish sp"
      by (simp_all add: keeps_times_def)
    moreover from inv Some have "span_wf sp" "sp_start sp \<le> clock s"
      by (simp_all add: sys_inv_def)
    ultimately have "span_wf sp'" "sp_start sp' \<le> clock s"
      by (simp_all add: span_wf_def split: option.splits)
    with inv show ?thesis unfolding s1 by (rule sys_inv_heap_upd)
  qed
qed

lemma sys_inv_finish_ref: "sys_inv s \<Longrightarrow> sys_inv (finish_ref r s)"
proof -
  assume inv: "sys_inv s"
  show ?thesis
  proof (cases "heap s r")
    case None
    with inv show ?thesis by (simp add: finish_ref_def)
  next
    case (Some sp)
    with inv have st: "sp_start sp \<le> clock s" by (simp add: sys_inv_def)
    show ?thesis
    proof (cases "sp_finish sp")
      case None
      let ?sp' = "sp\<lparr>sp_finish := Some (clock s)\<rparr>"
      have eq: "finish_ref r s = (s\<lparr>heap := (heap s)(r \<mapsto> ?sp')\<rparr>)\<lparr>rcol := rc_collect ?sp' (rcol s)\<rparr>"
        using Some None by (simp add: finish_ref_def)
      have wf: "span_wf ?sp'" "sp_start ?sp' \<le> clock s" using st by (simp_all add: span_wf_def)
      have ok: "rec_ok ?sp'" using st by (simp add: rec_ok_def span_wf_def)
      have inv1: "sys_inv (s\<lparr>heap := (heap s)(r \<mapsto> ?sp')\<rparr>)"
        using inv wf by (rule sys_inv_heap_upd)
      have rc: "rc_inv (rc_collect ?sp' (rcol s))" using inv by (simp add: sys_inv_def rc_collect_inv)
      have "set (rc_queue (rc_collect ?sp' (rcol s))) \<union> set (rc_dropped (rc_collect ?sp' (rcol s))) \<subseteq>
              set (rc_queue (rcol s)) \<union> set (rc_dropped (rcol s)) \<union> Collect rec_ok"
        using ok by (auto simp: rc_collect_def)
      with inv1 rc have "sys_inv ((s\<lparr>heap := (heap s)(r \<mapsto> ?sp')\<rparr>)\<lparr>rcol := rc_collect ?sp' (rcol s)\<rparr>)"
        by (intro sys_inv_rcol_upd) simp_all
      then show ?thesis by (simp only: eq)
    next
      case (Some f)
      with \<open>heap s r = Some sp\<close> have "finish_ref r s = s\<lparr>heap := (heap s)(r \<mapsto> sp)\<rparr>"
        by (simp add: finish_ref_def)
      moreover have "(heap s)(r \<mapsto> sp) = heap s" using \<open>heap s r = Some sp\<close> by (rule map_upd_triv)
      ultimately show ?thesis using inv by simp
    qed
  qed
qed

lemma stored_spans_collect:
  "stored_spans (store_collect sp st) \<subseteq> insert sp (stored_spans st)"
proof
  fix x
  assume "x \<in> stored_spans (store_collect sp st)"
  then obtain tid xs where b: "buckets (store_collect sp st) tid = Some xs" and x: "x \<in> set xs"
    by (auto simp: stored_spans_def ran_def)
  have "buckets (store_collect sp st) tid = None \<or>
        buckets (store_collect sp st) tid = buckets st tid \<or>
        buckets (store_collect sp st) tid =
          Some ((case buckets st tid of None \<Rightarrow> [] | Some ys \<Rightarrow> ys) @ [sp])"
    by (auto simp: store_collect_def evict_oldest_def Let_def)
  with b x show "x \<in> insert sp (stored_spans st)"
    by (auto simp: stored_spans_def ran_def split: option.splits)
qed

lemma sys_inv_send_ok:
  "rc_send_ok (rcol s) = Some (sp, rc') \<Longrightarrow> sys_inv s \<Longrightarrow>
     sys_inv (s\<lparr>rcol := rc', store := local_collect sp (store s)\<rparr>)"
proof -
  assume ok: "rc_send_ok (rcol s) = Some (sp, rc')" and inv: "sys_inv s"
  from ok have q: "rc_queue (rcol s) = sp # rc_queue rc'" and d: "rc_dropped rc' = rc_dropped (rcol s)"
    by (auto simp: rc_send_ok_def split: list.splits)
  have "rec_ok sp" using inv q by (simp add: sys_inv_def)
  moreover have "rc_inv (rcol s)" using inv by (simp add: sys_inv_def)
  then have "rc_inv rc'" using ok by (rule rc_send_ok_inv)
  moreover have "store_inv (local_collect sp (store s))"
    using inv by (simp add: sys_inv_def local_collect_def store_collect_inv)
  ultimately show ?thesis
    using inv q d stored_spans_collect [of sp "store s"]
    by (auto simp: sys_inv_def local_collect_def)
qed

lemma sys_inv_send_fail: "sys_inv s \<Longrightarrow> sys_inv (s\<lparr>rcol := rc_send_fail (rcol s)\<rparr>)"
proof -
  assume inv: "sys_inv s"
  have eq: "set (rc_queue (rc_send_fail (rcol s))) \<union> set (rc_dropped (rc_send_fail (rcol s))) =
          set (rc_queue (rcol s)) \<union> set (rc_dropped (rcol s))"
    using arg_cong [OF rc_send_fail_accounts [of "rcol s"], of set_mset] by simp
  from inv have "rc_inv (rc_send_fail (rcol s))" by (simp add: sys_inv_def rc_send_fail_inv)
  with inv show ?thesis unfolding sys_inv_def by (simp add: eq)
qed

subsection \<open>Handler steps\<close>

lemma sys_inv_pc_step: "pc_step t p c s = Some s' \<Longrightarrow> sys_inv s \<Longrightarrow> sys_inv s'"
  by (rule pc_step_preserves [where P = sys_inv and t = t and p = p and c = c and s = s])
     (auto intro: sys_inv_alloc_span sys_inv_span_op sys_inv_finish_ref sys_inv_sleep
       dest: sys_inv_spawn_pair)

lemma sys_inv_step: "step e s = Some s' \<Longrightarrow> sys_inv s \<Longrightarrow> sys_inv s'"
proof (cases e)
  case (Request path hdr)
  then show "step e s = Some s' \<Longrightarrow> sys_inv s \<Longrightarrow> sys_inv s'" by auto
next
  case (Run t c)
  then show "step e s = Some s' \<Longrightarrow> sys_inv s \<Longrightarrow> sys_inv s'"
    by (auto split: option.splits intro: sys_inv_pc_step)
next
  case Send_ok
  then show "step e s = Some s' \<Longrightarrow> sys_inv s \<Longrightarrow> sys_inv s'"
    by (auto split: option.splits intro: sys_inv_send_ok)
next
  case Send_fail
  then show "step e s = Some s' \<Longrightarrow> sys_inv s \<Longrightarrow> sys_inv s'"
    by (auto split: if_splits intro: sys_inv_send_fail)
qed

lemma sys_inv_main_init: "sys_inv (main_init gen cap qcap att)"
  using store_inv_empty [of cap] rc_inv_new [of qcap att]
  by (simp add: sys_inv_def main_init_def stored_spans_def new_remote_collector_def empty_store_def)

lemma reachable_sys_inv: "reachable s0 s \<Longrightarrow> sys_inv s0 \<Longrightarrow> sys_inv s"
  by (induction rule: reachable.induct) (auto intro: sys_inv_step)

end
