(* ===== verification/Parents.thy ===== *)
theory Parents
  imports Handlers
begin

text \<open>
  The spec's structural invariant (section 3): every non-root span's parent is a span of
  the same trace. In the program it holds for every span the handlers create from
  headers the program itself produced: a header travelling in a program point either
  yields no context or names a span already in the heap, and span contexts never change
  once a span is in the heap. Requests from outside whose header names some other span
  break it; the property is therefore stated for runs whose inbound requests carry no
  trace context (\<open>closed_event\<close>), and the root theory shows the orphan otherwise.
\<close>

definition ctx_in_heap :: "sys \<Rightarrow> span_context \<Rightarrow> bool" where
  "ctx_in_heap s ctx \<longleftrightarrow>
     (\<exists>r sp. heap s r = Some sp \<and> ctx_trace (sp_context sp) = ctx_trace ctx \<and>
             ctx_span (sp_context sp) = ctx_span ctx \<and> ctx_baggage (sp_context sp) = ctx_baggage ctx)"

definition hdr_ok :: "sys \<Rightarrow> carrier \<Rightarrow> bool" where
  "hdr_ok s h \<longleftrightarrow> (case extract_ctx h of Inl _ \<Rightarrow> True | Inr ctx \<Rightarrow> ctx_in_heap s ctx)"

fun pc_ok :: "sys \<Rightarrow> pc \<Rightarrow> bool" where
  "pc_ok s (Home_spawn r h) = hdr_ok s h"
| "pc_ok s (Async_do r h) = hdr_ok s h"
| "pc_ok s (Service_entry path h) = hdr_ok s h"
| "pc_ok s _ = True"

definition parent_inv :: "sys \<Rightarrow> bool" where
  "parent_inv s \<longleftrightarrow>
     (\<forall>r sp p. heap s r = Some sp \<longrightarrow> ctx_parent (sp_context sp) = Some p \<longrightarrow>
        ctx_in_heap s ((sp_context sp)\<lparr>ctx_span := p\<rparr>)) \<and>
     (\<forall>t q. threads s t = Some q \<longrightarrow> pc_ok s q) \<and>
     (\<forall>r. heap s r \<noteq> None \<longrightarrow> r < next_ref s)"

text \<open>An inbound request that carries no trace context.\<close>

fun closed_event :: "event \<Rightarrow> bool" where
  "closed_event (Request path h) = (case extract_ctx h of Inl _ \<Rightarrow> True | Inr _ \<Rightarrow> False)"
| "closed_event _ = True"

text \<open>The heap of \<open>s'\<close> keeps every span of \<open>s\<close> with its context.\<close>

text \<open>A start option that names, if any, a parent context of a span in the heap.\<close>

definition opt_ok :: "sys \<Rightarrow> start_opt \<Rightarrow> bool" where
  "opt_ok s opt \<longleftrightarrow> (case opt of NewRoot \<Rightarrow> True | ChildOf p \<Rightarrow> ctx_in_heap s p)"

text \<open>A span mutation that leaves the span's context alone.\<close>

definition keeps_ctx :: "(span \<Rightarrow> error + span) \<Rightarrow> bool" where
  "keeps_ctx f \<longleftrightarrow> (\<forall>sp sp'. f sp = Inr sp' \<longrightarrow> sp_context sp' = sp_context sp)"

definition heap_ext :: "sys \<Rightarrow> sys \<Rightarrow> bool" where
  "heap_ext s s' \<longleftrightarrow>
     (\<forall>r sp. heap s r = Some sp \<longrightarrow> (\<exists>sp'. heap s' r = Some sp' \<and> sp_context sp' = sp_context sp))"

subsection \<open>Monotonicity\<close>

lemma heap_ext_refl [simp]: "heap_ext s s"
  by (simp add: heap_ext_def)

lemma heap_ext_trans: "heap_ext s1 s2 \<Longrightarrow> heap_ext s2 s3 \<Longrightarrow> heap_ext s1 s3"
  by (fastforce simp: heap_ext_def)

lemma ctx_in_heap_mono: "ctx_in_heap s ctx \<Longrightarrow> heap_ext s s' \<Longrightarrow> ctx_in_heap s' ctx"
  by (fastforce simp: ctx_in_heap_def heap_ext_def)

lemma hdr_ok_mono: "hdr_ok s h \<Longrightarrow> heap_ext s s' \<Longrightarrow> hdr_ok s' h"
  by (auto simp: hdr_ok_def split: sum.splits intro: ctx_in_heap_mono)

lemma pc_ok_mono: "pc_ok s q \<Longrightarrow> heap_ext s s' \<Longrightarrow> pc_ok s' q"
  by (cases q) (auto intro: hdr_ok_mono)

text \<open>
  A step that extends the heap, gives every new span with a parent a parent in the new
  heap, changes no old span's context, and whose threads are
  the old ones (each program point still fine) plus some new program points that are
  fine, keeps the invariant.
\<close>

lemma parent_inv_frame:
  assumes inv: "parent_inv s" and ext: "heap_ext s s'"
    and hp: "\<forall>r sp p. heap s' r = Some sp \<longrightarrow> heap s r = None \<longrightarrow> ctx_parent (sp_context sp) = Some p \<longrightarrow>
               ctx_in_heap s' ((sp_context sp)\<lparr>ctx_span := p\<rparr>)"
    and ctxs: "\<forall>r sp sp'. heap s r = Some sp \<longrightarrow> heap s' r = Some sp' \<longrightarrow> sp_context sp' = sp_context sp"
    and th: "\<forall>t q. threads s' t = Some q \<longrightarrow> pc_ok s' q"
    and nr: "\<forall>r. heap s' r \<noteq> None \<longrightarrow> r < next_ref s'"
  shows "parent_inv s'"
  unfolding parent_inv_def
proof (intro conjI allI impI)
  fix r sp p
  assume h: "heap s' r = Some sp" and p: "ctx_parent (sp_context sp) = Some p"
  show "ctx_in_heap s' ((sp_context sp)\<lparr>ctx_span := p\<rparr>)"
  proof (cases "heap s r")
    case None
    with hp h p show ?thesis by auto
  next
    case (Some sp0)
    with ctxs h have c: "sp_context sp = sp_context sp0" by blast
    with inv Some p have "ctx_in_heap s ((sp_context sp0)\<lparr>ctx_span := p\<rparr>)"
      by (auto simp: parent_inv_def)
    with c ext show ?thesis by (simp add: ctx_in_heap_mono)
  qed
next
  fix t q
  assume "threads s' t = Some q"
  with th show "pc_ok s' q" by blast
next
  fix r
  assume "heap s' r \<noteq> None"
  with nr show "r < next_ref s'" by blast
qed

subsection \<open>Primitives\<close>

lemma ctx_in_heap_same: "heap s' = heap s \<Longrightarrow> ctx_in_heap s' = ctx_in_heap s"
  by (simp add: ctx_in_heap_def fun_eq_iff)

lemma hdr_ok_same:
  assumes "heap s' = heap s" shows "hdr_ok s' = hdr_ok s"
  unfolding hdr_ok_def [abs_def] ctx_in_heap_same [OF assms] by (rule refl)

lemma pc_ok_same:
  assumes "heap s' = heap s" shows "pc_ok s' = pc_ok s"
proof (rule ext)
  fix q
  show "pc_ok s' q = pc_ok s q" by (cases q) (simp_all only: pc_ok.simps hdr_ok_same [OF assms])
qed

lemma parent_inv_same_heap:
  assumes "parent_inv s" and h: "heap s' = heap s" and "threads s' = threads s" and "next_ref s' = next_ref s"
  shows "parent_inv s'"
proof -
  have c: "ctx_in_heap s' = ctx_in_heap s" and p: "pc_ok s' = pc_ok s"
    using h by (rule ctx_in_heap_same, rule pc_ok_same)
  from assms show ?thesis unfolding parent_inv_def c p by simp
qed

lemma parent_inv_sleep: "parent_inv s \<Longrightarrow> parent_inv (sleep d s)"
  by (rule parent_inv_same_heap) (simp_all add: sleep_def)

lemma parent_inv_thread_upd:
  assumes "parent_inv s" and "pc_ok s q" and h: "heap s' = heap s" and "next_ref s' = next_ref s"
    and "threads s' = (threads s)(t \<mapsto> q)"
  shows "parent_inv s'"
proof -
  have c: "ctx_in_heap s' = ctx_in_heap s" and p: "pc_ok s' = pc_ok s"
    using h by (rule ctx_in_heap_same, rule pc_ok_same)
  from assms show ?thesis unfolding parent_inv_def c p by simp
qed

lemma parent_inv_set_pc: "parent_inv s \<Longrightarrow> pc_ok s q \<Longrightarrow> parent_inv (set_pc t q s)"
  by (rule parent_inv_thread_upd) (simp_all add: set_pc_def)

lemma parent_inv_spawn:
  "parent_inv s \<Longrightarrow> pc_ok s q \<Longrightarrow> spawn q s = (u, s1) \<Longrightarrow> parent_inv s1 \<and> heap s1 = heap s"
  by (auto simp: spawn_def intro: parent_inv_thread_upd)


lemma parent_inv_fresh: "parent_inv s \<Longrightarrow> heap s (next_ref s) = None"
  by (auto simp: parent_inv_def)

lemma keeps_ctx_ops [simp]:
  "keeps_ctx (set_tag k v)" "keeps_ctx (log_event now msg)" "keeps_ctx (log_event_with_payload now msg p)"
  by (simp_all add: keeps_ctx_def log_event_def log_event_with_payload_def set_tag_Inr log_with_Inr)

lemma start_span_parent_ok:
  assumes "ctx_parent (sp_context (fst (start_span op opt now t))) = Some p" and "opt_ok s opt"
  shows "ctx_in_heap s ((sp_context (fst (start_span op opt now t)))\<lparr>ctx_span := p\<rparr>)"
proof (cases opt)
  case NewRoot
  with assms show ?thesis by (simp add: new_span_simps)
next
  case (ChildOf c)
  with assms have "p = ctx_span c" "ctx_in_heap s c" by (simp_all add: new_span_simps opt_ok_def)
  with ChildOf show ?thesis by (simp add: new_span_simps ctx_in_heap_def)
qed

lemma parent_inv_threads_mono:
  assumes inv: "parent_inv s" and ext: "heap_ext s s'" and th: "threads s' = threads s"
  shows "\<forall>t q. threads s' t = Some q \<longrightarrow> pc_ok s' q"
proof (intro allI impI)
  fix t q
  assume "threads s' t = Some q"
  with inv th have "pc_ok s q" by (auto simp: parent_inv_def)
  then show "pc_ok s' q" using ext by (rule pc_ok_mono)
qed

lemma parent_inv_ctx_upd:
  assumes inv: "parent_inv s" and old: "heap s r = Some sp" and c: "sp_context sp' = sp_context sp"
    and h: "heap s' = (heap s)(r \<mapsto> sp')" and th: "threads s' = threads s" and n: "next_ref s' = next_ref s"
  shows "parent_inv s' \<and> heap_ext s s'"
proof
  show ext: "heap_ext s s'" using old c h by (auto simp: heap_ext_def)
  show "parent_inv s'"
  proof (rule parent_inv_frame [OF inv ext])
    show "\<forall>r sp p. heap s' r = Some sp \<longrightarrow> heap s r = None \<longrightarrow> ctx_parent (sp_context sp) = Some p \<longrightarrow>
               ctx_in_heap s' ((sp_context sp)\<lparr>ctx_span := p\<rparr>)"
      using old h by auto
    show "\<forall>r0 sp0 sp1. heap s r0 = Some sp0 \<longrightarrow> heap s' r0 = Some sp1 \<longrightarrow> sp_context sp1 = sp_context sp0"
      using old c h by auto
    show "\<forall>t q. threads s' t = Some q \<longrightarrow> pc_ok s' q"
      using inv ext th by (rule parent_inv_threads_mono)
    show "\<forall>r. heap s' r \<noteq> None \<longrightarrow> r < next_ref s'"
      using inv old h n by (auto simp: parent_inv_def)
  qed
qed

lemma parent_inv_span_op:
  assumes inv: "parent_inv s" and k: "keeps_ctx f" and op: "span_op r f s = Inr s1"
  shows "parent_inv s1 \<and> heap_ext s s1"
proof (cases "heap s r")
  case None
  with op inv show ?thesis by (simp add: span_op_def)
next
  case (Some sp)
  with op obtain sp' where f: "f sp = Inr sp'" and s1: "s1 = s\<lparr>heap := (heap s)(r \<mapsto> sp')\<rparr>"
    by (auto simp: span_op_def split: sum.splits)
  from k f have "sp_context sp' = sp_context sp" by (simp add: keeps_ctx_def)
  from inv Some this show ?thesis by (rule parent_inv_ctx_upd) (simp_all add: s1)
qed

lemma parent_inv_finish_ref:
  assumes inv: "parent_inv s"
  shows "parent_inv (finish_ref r s) \<and> heap_ext s (finish_ref r s)"
proof (cases "heap s r")
  case None
  with inv show ?thesis by (simp add: finish_ref_def)
next
  case (Some sp)
  obtain sp' out where fs: "finish_span (clock s) sp = (sp', out)" by (cases "finish_span (clock s) sp")
  then have c: "sp_context sp' = sp_context sp" using finish_span_keeps_context(1) [of "clock s" sp] by simp
  from inv Some c show ?thesis by (rule parent_inv_ctx_upd) (simp_all add: finish_ref_def Some fs)
qed

lemma parent_inv_alloc_span:
  assumes inv: "parent_inv s" and ok: "opt_ok s opt" and a: "alloc_span op opt s = (r, s1)"
  shows "parent_inv s1 \<and> heap_ext s s1"
proof -
  obtain sp t' where ss: "start_span op opt (clock s) (tr s) = (sp, t')"
    by (cases "start_span op opt (clock s) (tr s)")
  with a have s1: "s1 = s\<lparr>tr := t', heap := (heap s)(next_ref s \<mapsto> sp), next_ref := Suc (next_ref s)\<rparr>"
    by (auto simp: alloc_span_def)
  have fr: "heap s (next_ref s) = None" using inv by (rule parent_inv_fresh)
  have ext: "heap_ext s s1" using fr by (auto simp: heap_ext_def s1)
  have "parent_inv s1"
  proof (rule parent_inv_frame [OF inv ext])
    show "\<forall>r sp0 p. heap s1 r = Some sp0 \<longrightarrow> heap s r = None \<longrightarrow> ctx_parent (sp_context sp0) = Some p \<longrightarrow>
               ctx_in_heap s1 ((sp_context sp0)\<lparr>ctx_span := p\<rparr>)"
    proof (intro allI impI)
      fix r0 sp0 p
      assume h: "heap s1 r0 = Some sp0" and n: "heap s r0 = None" and p: "ctx_parent (sp_context sp0) = Some p"
      from h n have "sp0 = sp" by (auto simp: s1 split: if_splits)
      with p ss ok have "ctx_in_heap s ((sp_context sp0)\<lparr>ctx_span := p\<rparr>)"
        using start_span_parent_ok [of op opt "clock s" "tr s" p s] by simp
      then show "ctx_in_heap s1 ((sp_context sp0)\<lparr>ctx_span := p\<rparr>)" using ext by (rule ctx_in_heap_mono)
    qed
    show "\<forall>r sp0 sp1. heap s r = Some sp0 \<longrightarrow> heap s1 r = Some sp1 \<longrightarrow> sp_context sp1 = sp_context sp0"
      using fr by (auto simp: s1)
    show "\<forall>t q. threads s1 t = Some q \<longrightarrow> pc_ok s1 q"
      using inv ext by (rule parent_inv_threads_mono) (simp add: s1)
    show "\<forall>r. heap s1 r \<noteq> None \<longrightarrow> r < next_ref s1"
      using inv by (auto simp: parent_inv_def s1)
  qed
  with ext show ?thesis by simp
qed

lemma hdr_ok_async: "heap s r = Some sp \<Longrightarrow> hdr_ok s (async_request_header (sp_context sp))"
  by (auto simp: hdr_ok_def ctx_in_heap_def)

lemma hdr_ok_empty [simp]: "hdr_ok s Map.empty"
  by (simp add: hdr_ok_def extract_ctx_def)

lemma pc_ok_route: "hdr_ok s h \<Longrightarrow> pc_ok s (route path h)"
  by (simp add: route_def)

lemma opt_ok_service: "hdr_ok s h \<Longrightarrow> opt_ok s (service_start_opt h)"
  by (simp add: hdr_ok_def opt_ok_def service_start_opt_def split: sum.splits)

subsection \<open>Handlers\<close>

lemma parent_inv_alloc_then:
  "parent_inv s \<Longrightarrow> opt_ok s opt \<Longrightarrow> (\<And>s r. pc_ok s (p r)) \<Longrightarrow>
     parent_inv (case alloc_span op opt s of (r, s1) \<Rightarrow> set_pc t (p r) s1)"
  by (auto split: prod.split dest: parent_inv_alloc_span intro: parent_inv_set_pc)

lemma parent_inv_spawn_then:
  "parent_inv s \<Longrightarrow> pc_ok s q \<Longrightarrow> (\<And>s u. pc_ok s (p u)) \<Longrightarrow>
     parent_inv (case spawn q s of (u, s1) \<Rightarrow> set_pc t (p u) s1)"
  by (auto split: prod.split dest: parent_inv_spawn intro: parent_inv_set_pc)

lemma parent_inv_span_op_then:
  "parent_inv s \<Longrightarrow> keeps_ctx f \<Longrightarrow> (\<And>s1. parent_inv s1 \<Longrightarrow> parent_inv (k s1)) \<Longrightarrow>
     parent_inv (case span_op r f s of Inl err \<Rightarrow> set_pc t (Failed err) s | Inr s1 \<Rightarrow> k s1)"
  by (auto split: sum.split dest: parent_inv_span_op intro: parent_inv_set_pc)

lemma parent_inv_handlers:
  "parent_inv s \<Longrightarrow> parent_inv (index_entry t s)"
  "parent_inv s \<Longrightarrow> parent_inv (db_entry t d s)"
  "parent_inv s \<Longrightarrow> parent_inv (home_entry t s)"
  "parent_inv s \<Longrightarrow> parent_inv (home_inject t r s)"
  "parent_inv s \<Longrightarrow> hdr_ok s hdr \<Longrightarrow> parent_inv (home_spawn t r hdr s)"
  "parent_inv s \<Longrightarrow> parent_inv (home_get_service t r res s)"
  "parent_inv s \<Longrightarrow> parent_inv (home_service_error t r e s)"
  "parent_inv s \<Longrightarrow> parent_inv (home_sleep t r d s)"
  "parent_inv s \<Longrightarrow> parent_inv (home_finish t r s)"
  "parent_inv s \<Longrightarrow> hdr_ok s hdr \<Longrightarrow> parent_inv (async_do t r hdr res s)"
  "parent_inv s \<Longrightarrow> parent_inv (async_set_tag t r e s)"
  "parent_inv s \<Longrightarrow> parent_inv (async_log t r e s)"
  "parent_inv s \<Longrightarrow> hdr_ok s hdr \<Longrightarrow> parent_inv (service_entry t path hdr s)"
  "parent_inv s \<Longrightarrow> parent_inv (service_call_db t r res s)"
  "parent_inv s \<Longrightarrow> parent_inv (service_sleep t r d s)"
  "parent_inv s \<Longrightarrow> parent_inv (service_finish t r s)"
  unfolding index_entry_def db_entry_def home_entry_def home_inject_def home_spawn_def
    home_get_service_def home_service_error_def home_sleep_def home_finish_def async_do_def
    async_set_tag_def async_log_def service_entry_def service_call_db_def service_sleep_def
    service_finish_def
  by (auto intro!: parent_inv_alloc_then parent_inv_spawn_then parent_inv_span_op_then
      parent_inv_set_pc parent_inv_sleep parent_inv_finish_ref [THEN conjunct1]
      pc_ok_route opt_ok_service hdr_ok_async simp: opt_ok_def split: option.split)

subsection \<open>Steps and runs\<close>

lemma parent_inv_pc_step:
  assumes inv: "parent_inv s" and th: "threads s t = Some p" and st: "pc_step t p c s = Some s'"
  shows "parent_inv s'"
proof -
  from inv th have ok: "pc_ok s p" by (auto simp: parent_inv_def)
  from st inv ok show ?thesis
    by (cases p) (auto simp: parent_inv_handlers intro: parent_inv_set_pc split: choice.splits if_splits)
qed

lemma parent_inv_step:
  assumes "parent_inv s" and "closed_event e" and "step e s = Some s'"
  shows "parent_inv s'"
  using assms
proof (cases e)
  case (Request path hdr)
  with assms have "hdr_ok s hdr" by (simp add: hdr_ok_def split: sum.splits)
  then have "pc_ok s (route path hdr)" by (rule pc_ok_route)
  moreover obtain u s1 where sp: "spawn (route path hdr) s = (u, s1)"
    by (cases "spawn (route path hdr) s")
  ultimately have "parent_inv s1" using assms(1) by (auto dest: parent_inv_spawn)
  with assms Request sp show ?thesis by simp
next
  case (Run t c)
  with assms show ?thesis by (auto split: option.splits intro: parent_inv_pc_step)
next
  case Send_ok
  with assms show ?thesis by (auto split: option.splits intro: parent_inv_same_heap)
next
  case Send_fail
  with assms show ?thesis by (auto split: if_splits intro: parent_inv_same_heap)
qed

lemma parent_inv_main_init: "parent_inv (main_init gen cap qcap att)"
  by (simp add: parent_inv_def main_init_def)

lemma parent_inv_run:
  "list_all closed_event es \<Longrightarrow> parent_inv s \<Longrightarrow> run es s = Some s' \<Longrightarrow> parent_inv s'"
proof (induction es arbitrary: s)
  case Nil
  then show ?case by simp
next
  case (Cons e es)
  then obtain s1 where st: "step e s = Some s1" and r: "run es s1 = Some s'"
    by (auto split: if_splits option.splits)
  from Cons.prems st have "parent_inv s1" by (auto intro: parent_inv_step)
  with Cons.IH Cons.prems r show ?case by simp
qed

end
