(* ===== verification/StoreSpec.thy ===== *)
theory StoreSpec
  imports MemoryStore
begin

text \<open>
  The abstract contract of the memory store (spec 4.4) and the refinement lemma that the
  bucket-and-recency store implements it. Abstractly a store is the list that
  \<open>Traces()\<close> returns: pairs of a trace identifier and its spans in arrival order, the
  trace whose last span arrived most recently first. \<open>Collect\<close> appends the span to its
  trace, moves that trace to the front, and drops the last trace when more than the
  bound are held; \<open>Trace(id)\<close> looks the identifier up. The abstraction function is
  \<open>store_traces\<close> itself.
\<close>

type_synonym abs_store = "(trace_id \<times> span list) list"

definition abs_collect :: "nat \<Rightarrow> span \<Rightarrow> abs_store \<Rightarrow> abs_store" where
  "abs_collect cap sp T =
     (let tid = ctx_trace (sp_context sp);
          old = (case map_of T tid of None \<Rightarrow> [] | Some xs \<Rightarrow> xs);
          T' = (tid, old @ [sp]) # filter (\<lambda>e. fst e \<noteq> tid) T
      in if cap < length T' then butlast T' else T')"

definition abs_trace :: "abs_store \<Rightarrow> trace_id \<Rightarrow> error + span list" where
  "abs_trace T tid = (case map_of T tid of None \<Rightarrow> Inl ErrorTraceNotFound | Some xs \<Rightarrow> Inr xs)"

subsection \<open>The abstraction on stores that keep their invariant\<close>

text \<open>On identifiers that all have a bucket, \<open>store_traces\<close> pairs each with its bucket.\<close>

definition entries_of :: "(trace_id \<rightharpoonup> span list) \<Rightarrow> trace_id list \<Rightarrow> abs_store" where
  "entries_of b rs = map (\<lambda>t. (t, case b t of None \<Rightarrow> [] | Some xs \<Rightarrow> xs)) rs"

lemma concat_buckets_entries:
  "set rs \<subseteq> dom b \<Longrightarrow>
     concat (map (\<lambda>t. case b t of None \<Rightarrow> [] | Some xs \<Rightarrow> [(t, xs)]) rs) = entries_of b rs"
  by (induction rs) (auto simp: entries_of_def)

lemma store_traces_entries:
  "store_inv st \<Longrightarrow> store_traces st = entries_of (buckets st) (recency st)"
  by (simp add: store_traces_def store_inv_def concat_buckets_entries)

lemma map_of_entries:
  "map_of (entries_of b rs) t = (if t \<in> set rs then Some (case b t of None \<Rightarrow> [] | Some xs \<Rightarrow> xs) else None)"
  by (induction rs) (auto simp: entries_of_def)

lemma entries_of_cong:
  "(\<forall>t \<in> set rs. b t = b' t) \<Longrightarrow> entries_of b rs = entries_of b' rs"
  by (simp add: entries_of_def)

lemma filter_entries_of:
  "filter (\<lambda>e. fst e \<noteq> tid) (entries_of b rs) = entries_of b (removeAll tid rs)"
  by (induction rs) (auto simp: entries_of_def)

lemma butlast_entries_of: "butlast (entries_of b rs) = entries_of b (butlast rs)"
  by (simp add: entries_of_def map_butlast)

lemma length_entries_of [simp]: "length (entries_of b rs) = length rs"
  by (simp add: entries_of_def)

subsection \<open>Refinement\<close>

lemma store_collect_refines:
  assumes inv: "store_inv st"
  shows "store_traces (store_collect sp st) = abs_collect (max_traces st) sp (store_traces st)"
proof -
  define tid where "tid = ctx_trace (sp_context sp)"
  define old where "old = (case buckets st tid of None \<Rightarrow> [] | Some xs \<Rightarrow> xs)"
  define r where "r = tid # removeAll tid (recency st)"
  define b where "b = (buckets st)(tid \<mapsto> old @ [sp])"
  have eq: "store_collect sp st = evict_oldest (st\<lparr>buckets := b, recency := r\<rparr>)"
    by (simp add: store_collect_unfold tid_def r_def b_def old_def)
  have dom: "set (recency st) = dom (buckets st)" and dr: "distinct r"
    using inv by (simp_all add: store_inv_def r_def distinct_removeAll)
  have T: "store_traces st = entries_of (buckets st) (recency st)" using inv by (rule store_traces_entries)
  have T1: "store_traces (store_collect sp st) =
              entries_of (buckets (store_collect sp st)) (recency (store_collect sp st))"
    using store_collect_inv [OF inv] by (rule store_traces_entries)
  have o: "(case map_of (store_traces st) tid of None \<Rightarrow> [] | Some xs \<Rightarrow> xs) = old"
    using dom by (cases "buckets st tid") (auto simp: T map_of_entries old_def)
  have "filter (\<lambda>e. fst e \<noteq> tid) (store_traces st) = entries_of b (removeAll tid (recency st))"
    unfolding T filter_entries_of by (rule entries_of_cong) (simp add: b_def)
  then have new: "(tid, old @ [sp]) # filter (\<lambda>e. fst e \<noteq> tid) (store_traces st) = entries_of b r"
    by (simp add: entries_of_def r_def b_def)
  have A: "abs_collect (max_traces st) sp (store_traces st) =
             (if max_traces st < length r then butlast (entries_of b r) else entries_of b r)"
    unfolding abs_collect_def Let_def tid_def [symmetric] o new by simp
  have R: "recency (store_collect sp st) = (if max_traces st < length r then butlast r else r)"
    by (simp add: eq evict_oldest_def Let_def)
  have B: "\<forall>t \<in> set (recency (store_collect sp st)). buckets (store_collect sp st) t = b t"
  proof (cases "max_traces st < length r")
    case True
    then have ne: "r \<noteq> []" by auto
    have "last r \<notin> set (butlast r)" using dr ne by (simp add: set_butlast_distinct)
    with True show ?thesis by (auto simp: R eq evict_oldest_def Let_def)
  next
    case False
    then show ?thesis by (simp add: eq evict_oldest_def)
  qed
  have "store_traces (store_collect sp st) = entries_of b (recency (store_collect sp st))"
    unfolding T1 using B by (rule entries_of_cong)
  then show ?thesis using A R by (simp add: butlast_entries_of)
qed

lemma store_trace_refines:
  "store_inv st \<Longrightarrow> store_trace st tid = abs_trace (store_traces st) tid"
  by (cases "buckets st tid")
     (auto simp: store_traces_entries map_of_entries store_trace_def abs_trace_def store_inv_def)

lemma store_traces_empty [simp]: "store_traces (empty_store cap) = []"
  by (simp add: store_traces_def empty_store_def)

end
