(* ===== verification/Progress.thy ===== *)
theory Progress
  imports Handlers
begin

text \<open>
  Termination of the handlers of src/main.go. No handler has a loop: every step of a
  thread moves it to a later program point of its handler, so a thread at program point
  \<open>p\<close> takes at most \<open>pc_rank p\<close> steps before it is \<open>Done\<close> or \<open>Failed\<close>, whatever the
  other threads, the requests and the collector do in between. \<open>pc_rank\<close> counts the
  steps of the longest path from \<open>p\<close> to the end of its handler.
\<close>

fun pc_rank :: "pc \<Rightarrow> nat" where
  "pc_rank Index_entry = 1"
| "pc_rank Db_entry = 1"
| "pc_rank Home_entry = 7"
| "pc_rank (Home_inject r) = 6"
| "pc_rank (Home_spawn r h) = 5"
| "pc_rank (Home_get_service r) = 4"
| "pc_rank (Home_wait_service r u) = 3"
| "pc_rank (Home_service_error r e) = 3"
| "pc_rank (Home_sleep r) = 2"
| "pc_rank (Home_finish r) = 1"
| "pc_rank (Async_do r h) = 3"
| "pc_rank (Async_wait u) = 1"
| "pc_rank (Async_set_tag r e) = 2"
| "pc_rank (Async_log r e) = 1"
| "pc_rank (Service_entry path h) = 5"
| "pc_rank (Service_call_db r) = 4"
| "pc_rank (Service_wait_db r u) = 3"
| "pc_rank (Service_sleep r) = 2"
| "pc_rank (Service_finish r) = 1"
| "pc_rank Done = 0"
| "pc_rank (Failed e) = 0"

text \<open>The span pointers a program point holds (the \<open>span\<close> variable of its handler).\<close>

fun pc_refs :: "pc \<Rightarrow> nat set" where
  "pc_refs (Home_inject r) = {r}"
| "pc_refs (Home_spawn r h) = {r}"
| "pc_refs (Home_get_service r) = {r}"
| "pc_refs (Home_wait_service r u) = {r}"
| "pc_refs (Home_service_error r e) = {r}"
| "pc_refs (Home_sleep r) = {r}"
| "pc_refs (Home_finish r) = {r}"
| "pc_refs (Async_do r h) = {r}"
| "pc_refs (Async_set_tag r e) = {r}"
| "pc_refs (Async_log r e) = {r}"
| "pc_refs (Service_call_db r) = {r}"
| "pc_refs (Service_wait_db r u) = {r}"
| "pc_refs (Service_sleep r) = {r}"
| "pc_refs (Service_finish r) = {r}"
| "pc_refs _ = {}"

text \<open>
  The typing of the state: every span pointer a thread holds points to an allocated
  span (a Go pointer returned by \<open>StartSpan\<close> is never nil, and spans are never freed).
\<close>

definition refs_ok :: "sys \<Rightarrow> bool" where
  "refs_ok s \<longleftrightarrow> (\<forall>t p r. threads s t = Some p \<longrightarrow> r \<in> pc_refs p \<longrightarrow> heap s r \<noteq> None)"

text \<open>Every thread has an identifier below the next one to be given out.\<close>

definition tid_ok :: "sys \<Rightarrow> bool" where
  "tid_ok s \<longleftrightarrow> (\<forall>u. threads s u \<noteq> None \<longrightarrow> u < next_tid s)"

text \<open>The events that run thread \<open>t\<close>.\<close>

fun runs_thread :: "nat \<Rightarrow> event \<Rightarrow> bool" where
  "runs_thread t (Run u c) = (u = t)"
| "runs_thread t _ = False"

subsection \<open>What one handler step does to the threads\<close>

text \<open>
  A handler step of thread \<open>t\<close> sets \<open>t\<close>'s program point and may start one thread, the
  callee of a synchronous call or the goroutine, under the next identifier.
\<close>

definition thread_effect :: "nat \<Rightarrow> sys \<Rightarrow> sys \<Rightarrow> bool" where
  "thread_effect t s s' \<longleftrightarrow>
     (next_tid s' = next_tid s \<and> (\<forall>u. u \<noteq> t \<longrightarrow> threads s' u = threads s u)) \<or>
     (next_tid s' = Suc (next_tid s) \<and> (\<forall>u. u \<noteq> t \<longrightarrow> u \<noteq> next_tid s \<longrightarrow> threads s' u = threads s u))"

lemmas step_unfold = set_pc_def spawn_def alloc_span_def span_op_def finish_ref_def sleep_def
  index_entry_def db_entry_def home_entry_def home_inject_def home_spawn_def home_get_service_def
  home_service_error_def home_sleep_def home_finish_def async_do_def async_set_tag_def async_log_def
  service_entry_def service_call_db_def service_sleep_def service_finish_def

lemma pc_refs_route: "pc_refs (route path h) = {}"
  by (simp add: route_def)

lemma refs_ok_at: "refs_ok s \<Longrightarrow> threads s t = Some p \<Longrightarrow> \<forall>r \<in> pc_refs p. heap s r \<noteq> None"
  by (auto simp: refs_ok_def)

lemma pc_step_refs:
  assumes st: "pc_step t p c s = Some s'" and th: "threads s t = Some p" and ok: "refs_ok s"
  shows "refs_ok s'"
proof -
  from ok th have hp: "\<forall>r \<in> pc_refs p. heap s r \<noteq> None" by (rule refs_ok_at)
  from st hp ok show ?thesis
    unfolding refs_ok_def
    by (cases p) (auto simp: step_unfold route_def
        split: choice.splits if_splits option.splits sum.splits prod.splits)
qed

lemma pc_step_rank:
  assumes st: "pc_step t p c s = Some s'" and th: "threads s t = Some p" and ok: "refs_ok s"
  shows "\<exists>p'. threads s' t = Some p' \<and> pc_rank p' < pc_rank p"
proof -
  from ok th have hp: "\<forall>r \<in> pc_refs p. heap s r \<noteq> None" by (rule refs_ok_at)
  from st hp show ?thesis
    by (cases p) (auto simp: step_unfold route_def
        split: choice.splits if_splits option.splits sum.splits prod.splits)
qed

lemma finish_ref_frame:
  "threads (finish_ref r s) = threads s" "next_tid (finish_ref r s) = next_tid s"
  by (simp_all add: finish_ref_def split: option.split prod.split)

lemma te_refl: "thread_effect t s s"
  by (simp add: thread_effect_def)

lemma te_set_pc: "threads s1 = threads s0 \<Longrightarrow> next_tid s1 = next_tid s0 \<Longrightarrow> thread_effect t s0 (set_pc t q s1)"
  by (simp add: thread_effect_def set_pc_def)

lemma te_spawn_then: "thread_effect t s (case spawn q s of (u, s1) \<Rightarrow> set_pc t (p u) s1)"
  by (simp add: thread_effect_def set_pc_def spawn_def)

lemma te_alloc_then: "thread_effect t s (case alloc_span op opt s of (r, s1) \<Rightarrow> set_pc t (p r) s1)"
  by (simp add: thread_effect_def set_pc_def alloc_span_def split: prod.split)

lemma te_span_op_then:
  "threads s = threads s0 \<Longrightarrow> next_tid s = next_tid s0 \<Longrightarrow>
   (\<And>s1. threads s1 = threads s0 \<Longrightarrow> next_tid s1 = next_tid s0 \<Longrightarrow> thread_effect t s0 (k s1)) \<Longrightarrow>
     thread_effect t s0 (case span_op r f s of Inl err \<Rightarrow> set_pc t (Failed err) s | Inr s1 \<Rightarrow> k s1)"
  by (auto simp: span_op_def intro: te_set_pc split: option.split sum.split)

lemma te_handlers:
  "thread_effect t s (index_entry t s)"
  "thread_effect t s (db_entry t d s)"
  "thread_effect t s (home_entry t s)"
  "thread_effect t s (home_inject t r s)"
  "thread_effect t s (home_spawn t r hdr s)"
  "thread_effect t s (home_get_service t r res s)"
  "thread_effect t s (home_service_error t r e s)"
  "thread_effect t s (home_sleep t r d s)"
  "thread_effect t s (home_finish t r s)"
  "thread_effect t s (async_do t r hdr res s)"
  "thread_effect t s (async_set_tag t r e s)"
  "thread_effect t s (async_log t r e s)"
  "thread_effect t s (service_entry t path hdr s)"
  "thread_effect t s (service_call_db t r res s)"
  "thread_effect t s (service_sleep t r d s)"
  "thread_effect t s (service_finish t r s)"
  unfolding index_entry_def db_entry_def home_entry_def home_inject_def home_spawn_def
    home_get_service_def home_service_error_def home_sleep_def home_finish_def async_do_def
    async_set_tag_def async_log_def service_entry_def service_call_db_def service_sleep_def
    service_finish_def
  by (auto intro!: te_refl te_set_pc te_spawn_then te_alloc_then te_span_op_then
      simp: sleep_def finish_ref_frame split: option.split)

lemma pc_step_effect: "pc_step t p c s = Some s' \<Longrightarrow> thread_effect t s s'"
  by (cases p) (auto simp: te_handlers intro: te_set_pc split: choice.splits if_splits)

subsection \<open>System steps\<close>

lemma step_typed:
  assumes st: "step e s = Some s'" and ti: "tid_ok s" and ro: "refs_ok s"
  shows "tid_ok s' \<and> refs_ok s'"
proof (cases e)
  case (Request path h)
  with st have s': "s' = snd (spawn (route path h) s)" by simp
  have "tid_ok s'" unfolding tid_ok_def
  proof (intro allI impI)
    fix u
    assume "threads s' u \<noteq> None"
    then show "u < next_tid s'" using ti by (cases "u = next_tid s") (auto simp: s' spawn_def tid_ok_def)
  qed
  moreover have "refs_ok s'" unfolding refs_ok_def
  proof (intro allI impI)
    fix u p r
    assume tu: "threads s' u = Some p" and r: "r \<in> pc_refs p"
    have h: "heap s' = heap s" by (simp add: s' spawn_def)
    show "heap s' r \<noteq> None"
    proof (cases "u = next_tid s")
      case True
      with tu have "p = route path h" by (simp add: s' spawn_def)
      with r show ?thesis by (simp add: pc_refs_route)
    next
      case False
      with tu have "threads s u = Some p" by (simp add: s' spawn_def)
      with ro r h show ?thesis by (auto simp: refs_ok_def)
    qed
  qed
  ultimately show ?thesis ..
next
  case (Run t c)
  with st obtain p where th: "threads s t = Some p" and ps: "pc_step t p c s = Some s'"
    by (auto split: option.splits)
  from ps th ro have "refs_ok s'" by (rule pc_step_refs)
  moreover have "tid_ok s'" unfolding tid_ok_def
  proof (intro allI impI)
    fix u
    assume u: "threads s' u \<noteq> None"
    from ti th have tl: "t < next_tid s" by (auto simp: tid_ok_def)
    from ps have ef: "thread_effect t s s'" by (rule pc_step_effect)
    then have nt: "next_tid s \<le> next_tid s'" by (auto simp: thread_effect_def)
    show "u < next_tid s'"
    proof (cases "u = t")
      case True
      with tl nt show ?thesis by simp
    next
      case False
      show ?thesis
      proof (cases "threads s' u = threads s u")
        case True
        with u ti nt show ?thesis by (auto simp: tid_ok_def)
      next
        case ch: False
        with ef False have "u = next_tid s" "next_tid s' = Suc (next_tid s)"
          by (auto simp: thread_effect_def)
        then show ?thesis by simp
      qed
    qed
  qed
  ultimately show ?thesis by simp
next
  case Send_ok
  with st ti ro show ?thesis by (auto simp: tid_ok_def refs_ok_def split: option.splits)
next
  case Send_fail
  with st ti ro show ?thesis by (auto simp: tid_ok_def refs_ok_def split: if_splits)
qed

lemma step_rank:
  assumes st: "step e s = Some s'" and ti: "tid_ok s" and ro: "refs_ok s" and th: "threads s t = Some p"
  shows "\<exists>p'. threads s' t = Some p' \<and> pc_rank p' \<le> pc_rank p \<and> (runs_thread t e \<longrightarrow> pc_rank p' < pc_rank p)"
proof (cases e)
  case (Request path h)
  from ti th have "t < next_tid s" by (auto simp: tid_ok_def)
  with st th Request show ?thesis by (auto simp: spawn_def)
next
  case (Run u c)
  with st obtain q where tq: "threads s u = Some q" and ps: "pc_step u q c s = Some s'"
    by (auto split: option.splits)
  from ps tq ro obtain q' where tq': "threads s' u = Some q'" and lt: "pc_rank q' < pc_rank q"
    by (blast dest: pc_step_rank)
  from ps have ef: "thread_effect u s s'" by (rule pc_step_effect)
  show ?thesis
  proof (cases "u = t")
    case True
    with th tq tq' lt Run show ?thesis by simp
  next
    case False
    from ti th have "t < next_tid s" by (auto simp: tid_ok_def)
    with ef False have "threads s' t = threads s t" by (auto simp: thread_effect_def)
    with th False Run show ?thesis by simp
  qed
next
  case Send_ok
  with st th show ?thesis by (auto split: option.splits)
next
  case Send_fail
  with st th show ?thesis by (auto split: if_splits)
qed

lemma run_typed: "run es s = Some s' \<Longrightarrow> tid_ok s \<Longrightarrow> refs_ok s \<Longrightarrow> tid_ok s' \<and> refs_ok s'"
proof (induction es arbitrary: s)
  case Nil
  then show ?case by simp
next
  case (Cons e es)
  then obtain s1 where st: "step e s = Some s1" and r: "run es s1 = Some s'"
    by (auto split: if_splits option.splits)
  from st Cons.prems(2,3) have "tid_ok s1 \<and> refs_ok s1" by (rule step_typed)
  with Cons.IH r show ?case by blast
qed

lemma run_thread_rank:
  "run es s = Some s' \<Longrightarrow> tid_ok s \<Longrightarrow> refs_ok s \<Longrightarrow> threads s t = Some p \<Longrightarrow>
     length (filter (runs_thread t) es) \<le> pc_rank p"
proof (induction es arbitrary: s p)
  case Nil
  then show ?case by simp
next
  case (Cons e es)
  then obtain s1 where st: "step e s = Some s1" and r: "run es s1 = Some s'"
    by (auto split: if_splits option.splits)
  from st Cons.prems(2,3,4) obtain p1 where th1: "threads s1 t = Some p1"
      and le: "pc_rank p1 \<le> pc_rank p" and lt: "runs_thread t e \<longrightarrow> pc_rank p1 < pc_rank p"
    by (blast dest: step_rank)
  from st Cons.prems(2,3) have "tid_ok s1 \<and> refs_ok s1" by (rule step_typed)
  with Cons.IH r th1 have "length (filter (runs_thread t) es) \<le> pc_rank p1" by blast
  with le lt show ?case by auto
qed

lemma main_init_typed: "tid_ok (main_init gen cap qcap att) \<and> refs_ok (main_init gen cap qcap att)"
  by (simp add: tid_ok_def refs_ok_def main_init_def)

lemma reachable_typed: "reachable s0 s \<Longrightarrow> tid_ok s0 \<and> refs_ok s0 \<Longrightarrow> tid_ok s \<and> refs_ok s"
  by (induction rule: reachable.induct) (auto dest: step_typed)

end
