(* ===== verification/MainBoot.thy ===== *)
theory MainBoot
  imports Handlers
begin

text \<open>
  The process around the served program (src/main.go, \<open>main\<close>, lines 74--118). Start-up
  can end the process before anything is served: \<open>net.ListenTCP\<close> for the collector
  server (line 78) and \<open>traceapp.New\<close> (line 95) each end it with \<open>log.Fatal\<close> on error.
  Once serving, two servers run: the trace UI's \<open>http.ListenAndServe\<close> in a goroutine
  (lines 101--103) and the application's \<open>http.ListenAndServe\<close> (line 118); when either
  returns, its error goes to \<open>log.Fatal\<close>, which exits the whole process, so the
  application stops serving and the in-memory store is gone. The environment decides
  whether and when these calls fail; \<open>url.Parse\<close> of the constant URL (line 90) cannot.
\<close>

datatype boot_error =
    ListenFailed string
  | TraceAppFailed string
  | UiServeFailed string
  | ServeFailed string

datatype proc = Serving sys | Exited boot_error

text \<open>Start-up: the outcome of \<open>ListenTCP\<close> and \<open>traceapp.New\<close> are the environment's.\<close>

definition main_boot ::
  "(nat \<Rightarrow> 64 word) \<Rightarrow> nat \<Rightarrow> nat \<Rightarrow> nat \<Rightarrow> string option \<Rightarrow> string option \<Rightarrow> proc" where
  "main_boot gen cap qcap att listen_err app_err =
     (case listen_err of
        Some e \<Rightarrow> Exited (ListenFailed e)
      | None \<Rightarrow> (case app_err of
                  Some e \<Rightarrow> Exited (TraceAppFailed e)
                | None \<Rightarrow> Serving (main_init gen cap qcap att)))"

text \<open>Process events: a step of the served program, or one of the two servers returning.\<close>

datatype pevent = Ev event | UiServerExit string | ServerExit string

fun proc_step :: "pevent \<Rightarrow> proc \<Rightarrow> proc option" where
  "proc_step (Ev e) (Serving s) = (if event_ok e then map_option Serving (step e s) else None)"
| "proc_step (UiServerExit e) (Serving s) = Some (Exited (UiServeFailed e))"
| "proc_step (ServerExit e) (Serving s) = Some (Exited (ServeFailed e))"
| "proc_step _ (Exited err) = None"

fun proc_run :: "pevent list \<Rightarrow> proc \<Rightarrow> proc option" where
  "proc_run [] p = Some p"
| "proc_run (e # es) p = (case proc_step e p of None \<Rightarrow> None | Some p' \<Rightarrow> proc_run es p')"

subsection \<open>Lemmas\<close>

text \<open>While the process serves, its runs are the runs of the served program.\<close>

lemma proc_run_serving: "proc_run (map Ev es) (Serving s) = map_option Serving (run es s)"
  by (induction es arbitrary: s) (auto split: option.splits)

lemma proc_run_exited: "proc_run es (Exited err) = (if es = [] then Some (Exited err) else None)"
  by (cases es) simp_all

lemma proc_run_append:
  "proc_run (es @ es') p = (case proc_run es p of None \<Rightarrow> None | Some p1 \<Rightarrow> proc_run es' p1)"
  by (induction es arbitrary: p) (auto split: option.splits)

text \<open>A run that ends serving never saw a server return: it is a run of the served program.\<close>

lemma proc_run_ends_serving:
  "proc_run pes (Serving s0) = Some (Serving s) \<Longrightarrow> \<exists>es. pes = map Ev es \<and> run es s0 = Some s"
proof (induction pes arbitrary: s0)
  case Nil
  then show ?case by simp
next
  case (Cons pe pes)
  show ?case
  proof (cases pe)
    case (Ev e)
    with Cons.prems obtain s1 where ok: "event_ok e" and st: "step e s0 = Some s1"
        and r: "proc_run pes (Serving s1) = Some (Serving s)"
      by (auto split: option.splits if_splits)
    from Cons.IH [OF r] obtain es where "pes = map Ev es" "run es s1 = Some s" by blast
    with Ev ok st have "pe # pes = map Ev (e # es) \<and> run (e # es) s0 = Some s" by simp
    then show ?thesis by (rule exI [of _ "e # es"])
  next
    case (UiServerExit x)
    with Cons.prems show ?thesis by (simp add: proc_run_exited split: if_splits)
  next
    case (ServerExit x)
    with Cons.prems show ?thesis by (simp add: proc_run_exited split: if_splits)
  qed
qed

end
