(* ===== verification/Records.thy ===== *)
theory Records
  imports Invariants StoreSpec
begin

text \<open>
  The spec's recording discipline (section 3: a span is recorded to the collector exactly
  once, after Finish) for the whole program. The records held anywhere in the pipeline,
  queued in the remote collector, dropped by it, or kept by the store, form a
  sub-multiset of the finished spans of the heap: no record exists for a span that has
  not finished, and no finished span has more records than copies of itself. Records
  leave the pipeline only by eviction, which the containment allows.
\<close>

definition fin_at :: "sys \<Rightarrow> nat \<Rightarrow> span list" where
  "fin_at s r = (case heap s r of None \<Rightarrow> [] | Some sp \<Rightarrow> if sp_finish sp = None then [] else [sp])"

definition finished_spans :: "sys \<Rightarrow> span multiset" where
  "finished_spans s = mset (concat (map (fin_at s) [0..<next_ref s]))"

definition stored_mset :: "mem_store \<Rightarrow> span multiset" where
  "stored_mset st = mset (concat (map snd (store_traces st)))"

definition in_flight :: "sys \<Rightarrow> span multiset" where
  "in_flight s = mset (rc_queue (rcol s)) + mset (rc_dropped (rcol s)) + stored_mset (store s)"

definition rec_inv :: "sys \<Rightarrow> bool" where
  "rec_inv s \<longleftrightarrow> in_flight s \<subseteq># finished_spans s \<and> (\<forall>r. heap s r \<noteq> None \<longrightarrow> r < next_ref s)"

subsection \<open>Lists of records\<close>

lemma mset_concat_map_cong:
  "(\<forall>x \<in> set xs. f x = g x) \<Longrightarrow> mset (concat (map f xs)) = mset (concat (map g xs))"
  by (induction xs) auto

lemma mset_concat_map_add:
  "distinct xs \<Longrightarrow> r \<in> set xs \<Longrightarrow> f r = [] \<Longrightarrow>
     mset (concat (map (f(r := [x])) xs)) = mset (concat (map f xs)) + {#x#}"
  by (induction xs) (auto simp: mset_concat_map_cong)

lemma mset_concat_filter:
  "mset (concat (map snd (filter P T))) \<subseteq># mset (concat (map snd T))"
proof (induction T)
  case (Cons e T)
  then show ?case
    by (cases "P e") (simp_all add: subset_mset.add_left_mono subset_mset.order_trans [OF Cons.IH])
qed simp

lemma mset_concat_butlast:
  "mset (concat (map snd (butlast T))) \<subseteq># mset (concat (map snd T))"
proof (induction T)
  case (Cons e T)
  then show ?case by (cases "T = []") (simp_all add: subset_mset.add_left_mono)
qed simp

lemma mset_concat_remove_entry:
  "mset (concat (map snd (filter (\<lambda>e. fst e \<noteq> tid) T))) +
     mset (case map_of T tid of None \<Rightarrow> [] | Some xs \<Rightarrow> xs) \<subseteq># mset (concat (map snd T))"
proof (induction T)
  case (Cons e T)
  obtain t xs where e: "e = (t, xs)" by (cases e)
  show ?case
  proof (cases "t = tid")
    case True
    have "mset (concat (map snd (filter (\<lambda>e. fst e \<noteq> tid) T))) \<subseteq># mset (concat (map snd T))"
      by (rule mset_concat_filter)
    then have "mset (concat (map snd (filter (\<lambda>e. fst e \<noteq> tid) T))) + mset xs \<subseteq>#
                 mset xs + mset (concat (map snd T))"
      by (simp add: add.commute subset_mset.add_left_mono)
    with True e show ?thesis by simp
  next
    case False
    from Cons.IH have "mset xs + (mset (concat (map snd (filter (\<lambda>e. fst e \<noteq> tid) T))) +
                 mset (case map_of T tid of None \<Rightarrow> [] | Some xs \<Rightarrow> xs)) \<subseteq>#
                 mset xs + mset (concat (map snd T))"
      by (rule subset_mset.add_left_mono)
    with False e show ?thesis by (simp add: add.assoc)
  qed
qed simp

lemma abs_collect_mset:
  "mset (concat (map snd (abs_collect cap sp T))) \<subseteq># mset (concat (map snd T)) + {#sp#}"
proof -
  define tid where "tid = ctx_trace (sp_context sp)"
  define old where "old = (case map_of T tid of None \<Rightarrow> [] | Some xs \<Rightarrow> xs)"
  define T' where "T' = (tid, old @ [sp]) # filter (\<lambda>e. fst e \<noteq> tid) T"
  have "mset (concat (map snd T')) =
          (mset (concat (map snd (filter (\<lambda>e. fst e \<noteq> tid) T))) + mset old) + {#sp#}"
    by (simp add: T'_def)
  also have "\<dots> \<subseteq># mset (concat (map snd T)) + {#sp#}"
    using mset_concat_remove_entry [of tid T] by (simp add: old_def)
  finally have t: "mset (concat (map snd T')) \<subseteq># mset (concat (map snd T)) + {#sp#}" .
  have a: "abs_collect cap sp T = (if cap < length T' then butlast T' else T')"
    by (simp add: abs_collect_def Let_def T'_def old_def tid_def)
  show ?thesis
  proof (cases "cap < length T'")
    case True
    with a t mset_concat_butlast [of T'] show ?thesis by (auto intro: subset_mset.order_trans)
  next
    case False
    with a t show ?thesis by simp
  qed
qed

lemma stored_mset_collect:
  "store_inv st \<Longrightarrow> stored_mset (store_collect sp st) \<subseteq># stored_mset st + {#sp#}"
  unfolding stored_mset_def using abs_collect_mset [of "max_traces st" sp "store_traces st"]
  by (simp add: store_collect_refines)

subsection \<open>Primitives\<close>

text \<open>A span mutation that applies only to unfinished spans and leaves them unfinished.\<close>

definition keeps_unfinished :: "(span \<Rightarrow> error + span) \<Rightarrow> bool" where
  "keeps_unfinished f \<longleftrightarrow> (\<forall>sp sp'. f sp = Inr sp' \<longrightarrow> sp_finish sp = None \<and> sp_finish sp' = None)"

lemma keeps_unfinished_ops [simp]:
  "keeps_unfinished (set_tag k v)" "keeps_unfinished (log_event now msg)"
  "keeps_unfinished (log_event_with_payload now msg p)"
  by (auto simp: keeps_unfinished_def log_event_def log_event_with_payload_def set_tag_Inr log_with_Inr
      is_finished_def)

lemma fin_at_heap: "heap s' = heap s \<Longrightarrow> fin_at s' = fin_at s"
  by (rule ext) (simp add: fin_at_def)

lemma rec_inv_cong:
  "heap s' = heap s \<Longrightarrow> next_ref s' = next_ref s \<Longrightarrow> rcol s' = rcol s \<Longrightarrow> store s' = store s \<Longrightarrow>
     rec_inv s' = rec_inv s"
proof -
  assume h: "heap s' = heap s" and n: "next_ref s' = next_ref s" and "rcol s' = rcol s" "store s' = store s"
  moreover have "fin_at s' = fin_at s" by (rule ext) (simp add: fin_at_def h)
  ultimately show ?thesis by (simp add: rec_inv_def in_flight_def finished_spans_def)
qed

lemma rec_inv_set_pc: "rec_inv (set_pc t q s) = rec_inv s"
  by (rule rec_inv_cong) (simp_all add: set_pc_def)

lemma rec_inv_sleep: "rec_inv (sleep d s) = rec_inv s"
  by (rule rec_inv_cong) (simp_all add: sleep_def)

lemma rec_inv_spawn: "spawn q s = (u, s1) \<Longrightarrow> rec_inv s1 = rec_inv s"
  by (rule rec_inv_cong) (auto simp: spawn_def)

lemma rec_inv_spawn_snd: "rec_inv (snd (spawn q s)) = rec_inv s"
  by (rule rec_inv_cong) (simp_all add: spawn_def)

lemma rec_inv_alloc_span:
  assumes inv: "rec_inv s" and a: "alloc_span op opt s = (r, s1)"
  shows "rec_inv s1"
proof -
  obtain sp t' where ss: "start_span op opt (clock s) (tr s) = (sp, t')"
    by (cases "start_span op opt (clock s) (tr s)")
  with a have s1: "s1 = s\<lparr>tr := t', heap := (heap s)(next_ref s \<mapsto> sp), next_ref := Suc (next_ref s)\<rparr>"
    by (auto simp: alloc_span_def)
  have "sp_finish sp = None" using ss by (cases opt) auto
  then have new: "fin_at s1 (next_ref s) = []" by (simp add: fin_at_def s1)
  have old: "\<forall>x \<in> set [0..<next_ref s]. fin_at s1 x = fin_at s x" by (simp add: fin_at_def s1)
  have "finished_spans s1 = finished_spans s"
    using new mset_concat_map_cong [OF old] by (simp add: finished_spans_def s1)
  moreover have "in_flight s1 = in_flight s" by (simp add: in_flight_def s1)
  ultimately show ?thesis using inv by (auto simp: rec_inv_def s1)
qed

lemma rec_inv_span_op:
  assumes op: "span_op r f s = Inr s1" and k: "keeps_unfinished f" and inv: "rec_inv s"
  shows "rec_inv s1"
proof (cases "heap s r")
  case None
  with op inv show ?thesis by (simp add: span_op_def)
next
  case (Some sp)
  with op obtain sp' where f: "f sp = Inr sp'" and s1: "s1 = s\<lparr>heap := (heap s)(r \<mapsto> sp')\<rparr>"
    by (auto simp: span_op_def split: sum.splits)
  from k f have "sp_finish sp = None" "sp_finish sp' = None" by (auto simp: keeps_unfinished_def)
  then have "\<forall>x \<in> set [0..<next_ref s]. fin_at s1 x = fin_at s x" using Some by (simp add: fin_at_def s1)
  then have e: "mset (concat (map (fin_at s1) [0..<next_ref s])) = mset (concat (map (fin_at s) [0..<next_ref s]))"
    by (rule mset_concat_map_cong)
  have n: "next_ref s1 = next_ref s" by (simp add: s1)
  have "finished_spans s1 = finished_spans s" unfolding finished_spans_def n by (rule e)
  moreover have "in_flight s1 = in_flight s" by (simp add: in_flight_def s1)
  ultimately show ?thesis using inv Some by (auto simp: rec_inv_def s1)
qed

lemma rec_inv_finish_ref:
  assumes inv: "rec_inv s"
  shows "rec_inv (finish_ref r s)"
proof (cases "heap s r")
  case None
  with inv show ?thesis by (simp add: finish_ref_def)
next
  case (Some sp)
  show ?thesis
  proof (cases "sp_finish sp")
    case (Some f)
    with \<open>heap s r = Some sp\<close> have "finish_ref r s = s" by (rule finish_ref_finished)
    with inv show ?thesis by simp
  next
    case None
    let ?sp' = "sp\<lparr>sp_finish := Some (clock s)\<rparr>"
    let ?s' = "finish_ref r s"
    have s': "?s' = s\<lparr>heap := (heap s)(r \<mapsto> ?sp'), rcol := rc_collect ?sp' (rcol s)\<rparr>"
      using \<open>heap s r = Some sp\<close> None by (rule finish_ref_fresh)
    have lt: "r < next_ref s" using inv \<open>heap s r = Some sp\<close> by (auto simp: rec_inv_def)
    have fa: "fin_at ?s' = (fin_at s)(r := [?sp'])" and f0: "fin_at s r = []"
      using \<open>heap s r = Some sp\<close> None by (auto simp: fin_at_def s')
    have n: "next_ref ?s' = next_ref s" by (simp add: s')
    have "finished_spans ?s' = finished_spans s + {#?sp'#}"
      unfolding finished_spans_def n fa using lt f0 by (simp add: mset_concat_map_add)
    moreover have "in_flight ?s' = in_flight s + {#?sp'#}"
      using rc_collect_accounts [of ?sp' "rcol s"] by (simp add: in_flight_def s' add_ac)
    moreover have "\<forall>x. heap ?s' x \<noteq> None \<longrightarrow> x < next_ref ?s'" using inv lt by (auto simp: rec_inv_def s')
    ultimately show ?thesis using inv by (simp add: rec_inv_def)
  qed
qed

lemma rec_inv_send_ok:
  assumes inv: "rec_inv s" and si: "store_inv (store s)" and ok: "rc_send_ok (rcol s) = Some (sp, rc')"
  shows "rec_inv (s\<lparr>rcol := rc', store := local_collect sp (store s)\<rparr>)"
proof -
  let ?s' = "s\<lparr>rcol := rc', store := local_collect sp (store s)\<rparr>"
  from ok have q: "rc_queue (rcol s) = sp # rc_queue rc'" and d: "rc_dropped rc' = rc_dropped (rcol s)"
    by (auto simp: rc_send_ok_def split: list.splits)
  have "stored_mset (store ?s') \<subseteq># stored_mset (store s) + {#sp#}"
    using stored_mset_collect [OF si] by (simp add: local_collect_def)
  then have "in_flight ?s' \<subseteq># in_flight s"
    using q d by (simp add: in_flight_def add_ac subset_mset.add_left_mono)
  moreover have "fin_at ?s' = fin_at s" by (rule fin_at_heap) simp
  then have "finished_spans ?s' = finished_spans s" by (simp add: finished_spans_def)
  ultimately show ?thesis using inv by (auto simp: rec_inv_def intro: subset_mset.order_trans)
qed

lemma rec_inv_send_fail: "rec_inv s \<Longrightarrow> rec_inv (s\<lparr>rcol := rc_send_fail (rcol s)\<rparr>)"
proof -
  have "fin_at (s\<lparr>rcol := rc_send_fail (rcol s)\<rparr>) = fin_at s" by (rule fin_at_heap) simp
  then show "rec_inv s \<Longrightarrow> rec_inv (s\<lparr>rcol := rc_send_fail (rcol s)\<rparr>)"
    using rc_send_fail_accounts [of "rcol s"]
    by (simp add: rec_inv_def in_flight_def finished_spans_def add_ac)
qed

subsection \<open>Steps\<close>

lemma rec_inv_pc_step: "pc_step t p c s = Some s' \<Longrightarrow> rec_inv s \<Longrightarrow> rec_inv s'"
  by (rule pc_step_preserves [where P = rec_inv and t = t and p = p and c = c and s = s])
     (auto intro: rec_inv_alloc_span rec_inv_span_op rec_inv_finish_ref simp: rec_inv_set_pc rec_inv_sleep
       dest: rec_inv_spawn)

lemma rec_inv_step: "step e s = Some s' \<Longrightarrow> sys_inv s \<Longrightarrow> rec_inv s \<Longrightarrow> rec_inv s'"
proof (cases e)
  case (Request path hdr)
  then show "step e s = Some s' \<Longrightarrow> sys_inv s \<Longrightarrow> rec_inv s \<Longrightarrow> rec_inv s'"
    by (auto simp: rec_inv_spawn_snd)
next
  case (Run t c)
  then show "step e s = Some s' \<Longrightarrow> sys_inv s \<Longrightarrow> rec_inv s \<Longrightarrow> rec_inv s'"
    by (auto split: option.splits intro: rec_inv_pc_step)
next
  case Send_ok
  then show "step e s = Some s' \<Longrightarrow> sys_inv s \<Longrightarrow> rec_inv s \<Longrightarrow> rec_inv s'"
    by (auto split: option.splits intro: rec_inv_send_ok simp: sys_inv_def)
next
  case Send_fail
  then show "step e s = Some s' \<Longrightarrow> sys_inv s \<Longrightarrow> rec_inv s \<Longrightarrow> rec_inv s'"
    by (auto split: if_splits intro: rec_inv_send_fail)
qed

lemma rec_inv_main_init: "rec_inv (main_init gen cap qcap att)"
  by (simp add: rec_inv_def in_flight_def finished_spans_def stored_mset_def store_traces_def main_init_def
      new_remote_collector_def empty_store_def)

lemma reachable_rec_inv: "reachable s0 s \<Longrightarrow> sys_inv s0 \<Longrightarrow> rec_inv s0 \<Longrightarrow> sys_inv s \<and> rec_inv s"
  by (induction rule: reachable.induct) (auto intro: sys_inv_step rec_inv_step)

end
