(* ===== verification/Ids.thy ===== *)
theory Ids
  imports Parents
begin

text \<open>
  Uniqueness of span identifiers (spec 3: identifiers are globally unique with high
  probability, by random generation). The model draws identifiers from the sequence
  \<open>id_gen\<close>; whenever the identifiers drawn so far have no repetition
  (\<open>ids_unique\<close>), every span in the heap carries one of them as its span identifier and
  no two spans share one. The hypothesis is the model's reading of "with high
  probability": a repetition of the random source is the only way to a collision.
\<close>

definition ids_ok :: "sys \<Rightarrow> bool" where
  "ids_ok s \<longleftrightarrow>
     (\<forall>r sp. heap s r = Some sp \<longrightarrow> ctx_span (sp_context sp) \<in> id_gen (tr s) ` {..<draws (tr s)}) \<and>
     (\<forall>r r' sp sp'. heap s r = Some sp \<longrightarrow> heap s r' = Some sp' \<longrightarrow> r \<noteq> r' \<longrightarrow>
        ctx_span (sp_context sp) \<noteq> ctx_span (sp_context sp'))"

definition ids_inv :: "sys \<Rightarrow> bool" where
  "ids_inv s \<longleftrightarrow> (ids_unique (tr s) \<longrightarrow> ids_ok s)"

subsection \<open>Primitives\<close>

lemma dom_eq_Some: "dom m' = dom m \<Longrightarrow> m' r = Some y \<Longrightarrow> \<exists>x. m r = Some x"
  by (metis domD domI)

lemma ids_inv_frame:
  assumes t: "tr s' = tr s" and d: "dom (heap s') = dom (heap s)"
    and c: "\<forall>r sp sp'. heap s r = Some sp \<longrightarrow> heap s' r = Some sp' \<longrightarrow> sp_context sp' = sp_context sp"
    and inv: "ids_inv s"
  shows "ids_inv s'"
  unfolding ids_inv_def ids_ok_def
proof (intro impI conjI allI)
  assume "ids_unique (tr s')"
  with inv t have ok: "ids_ok s" by (simp add: ids_inv_def)
  fix r sp'
  assume h: "heap s' r = Some sp'"
  with d obtain sp where h0: "heap s r = Some sp" by (blast dest: dom_eq_Some)
  with c h have "sp_context sp' = sp_context sp" by blast
  with ok t h0 show "ctx_span (sp_context sp') \<in> id_gen (tr s') ` {..<draws (tr s')}"
    by (auto simp: ids_ok_def)
next
  assume "ids_unique (tr s')"
  with inv t have ok: "ids_ok s" by (simp add: ids_inv_def)
  fix r r' sp0 sp1
  assume h0: "heap s' r = Some sp0" and h1: "heap s' r' = Some sp1" and ne: "r \<noteq> r'"
  from d h0 obtain a where a: "heap s r = Some a" by (blast dest: dom_eq_Some)
  from d h1 obtain b where b: "heap s r' = Some b" by (blast dest: dom_eq_Some)
  from c a b h0 h1 have "sp_context sp0 = sp_context a" "sp_context sp1 = sp_context b" by blast+
  with ok a b ne show "ctx_span (sp_context sp0) \<noteq> ctx_span (sp_context sp1)"
    by (auto simp: ids_ok_def)
qed

lemma start_span_draws:
  "\<exists>i. draws (tr s) \<le> i \<and> i < draws (snd (start_span op opt now (tr s))) \<and>
       ctx_span (sp_context (fst (start_span op opt now (tr s)))) = id_gen (tr s) i"
proof (cases opt)
  case NewRoot
  then show ?thesis by (intro exI [of _ "Suc (draws (tr s))"]) simp
next
  case (ChildOf p)
  then show ?thesis by (intro exI [of _ "draws (tr s)"]) simp
qed

lemma ids_inv_alloc_span:
  assumes a: "alloc_span op opt s = (r, s1)" and inv: "ids_inv s"
  shows "ids_inv s1"
  unfolding ids_inv_def
proof
  assume u1: "ids_unique (tr s1)"
  obtain sp t' where ss: "start_span op opt (clock s) (tr s) = (sp, t')"
    by (cases "start_span op opt (clock s) (tr s)")
  with a have s1: "s1 = s\<lparr>tr := t', heap := (heap s)(next_ref s \<mapsto> sp), next_ref := Suc (next_ref s)\<rparr>"
    by (auto simp: alloc_span_def)
  have g: "id_gen t' = id_gen (tr s)" and d: "draws (tr s) \<le> draws t'"
    using ss by (cases opt; auto)+
  obtain i where i: "draws (tr s) \<le> i" "i < draws t'" and sid: "ctx_span (sp_context sp) = id_gen (tr s) i"
    using start_span_draws [of s op opt "clock s"] ss by auto
  have inj: "inj_on (id_gen (tr s)) {..<draws t'}" using u1 g by (simp add: s1 ids_unique_def)
  then have "ids_unique (tr s)" using d by (auto simp: ids_unique_def intro: inj_on_subset)
  with inv have ok: "ids_ok s" by (simp add: ids_inv_def)
  have fresh: "ctx_span (sp_context sp) \<notin> id_gen (tr s) ` {..<draws (tr s)}"
  proof
    assume "ctx_span (sp_context sp) \<in> id_gen (tr s) ` {..<draws (tr s)}"
    then obtain j where j: "j < draws (tr s)" "id_gen (tr s) j = id_gen (tr s) i" using sid by auto
    with inj i d have "j = i" by (auto simp: inj_on_def)
    with j i show False by simp
  qed
  show "ids_ok s1"
    unfolding ids_ok_def
  proof (intro conjI allI impI)
    fix x sp0
    assume h: "heap s1 x = Some sp0"
    have sub: "id_gen (tr s) ` {..<draws (tr s)} \<subseteq> id_gen (tr s1) ` {..<draws (tr s1)}"
      using d g by (auto simp: s1)
    show "ctx_span (sp_context sp0) \<in> id_gen (tr s1) ` {..<draws (tr s1)}"
    proof (cases "x = next_ref s")
      case True
      with h have "sp0 = sp" by (simp add: s1)
      with sid i g show ?thesis by (simp add: s1)
    next
      case False
      with h have "heap s x = Some sp0" by (simp add: s1)
      with ok have "ctx_span (sp_context sp0) \<in> id_gen (tr s) ` {..<draws (tr s)}" by (auto simp: ids_ok_def)
      with sub show ?thesis by blast
    qed
  next
    fix x x' sp0 sp1
    assume h0: "heap s1 x = Some sp0" and h1: "heap s1 x' = Some sp1" and ne: "x \<noteq> x'"
    show "ctx_span (sp_context sp0) \<noteq> ctx_span (sp_context sp1)"
    proof (cases "x = next_ref s \<or> x' = next_ref s")
      case True
      have mem: "\<And>y sp2. heap s y = Some sp2 \<Longrightarrow> ctx_span (sp_context sp2) \<in> id_gen (tr s) ` {..<draws (tr s)}"
        using ok by (auto simp: ids_ok_def)
      from True h0 h1 ne fresh mem [of x sp0] mem [of x' sp1] show ?thesis by (auto simp: s1 split: if_splits)
    next
      case False
      with h0 h1 ne ok show ?thesis by (auto simp: s1 ids_ok_def)
    qed
  qed
qed

lemma ids_inv_same_heap: "tr s' = tr s \<Longrightarrow> heap s' = heap s \<Longrightarrow> ids_inv s \<Longrightarrow> ids_inv s'"
  by (rule ids_inv_frame) auto

lemma ids_inv_ctx_upd:
  "heap s r = Some sp \<Longrightarrow> sp_context sp' = sp_context sp \<Longrightarrow> ids_inv s \<Longrightarrow>
     ids_inv (s\<lparr>heap := (heap s)(r \<mapsto> sp')\<rparr>)"
  by (rule ids_inv_frame) auto

lemma ids_inv_span_op:
  assumes op: "span_op r f s = Inr s1" and k: "keeps_ctx f" and inv: "ids_inv s"
  shows "ids_inv s1"
proof (cases "heap s r")
  case None
  with op inv show ?thesis by (simp add: span_op_def)
next
  case (Some sp)
  with op obtain sp' where f: "f sp = Inr sp'" and s1: "s1 = s\<lparr>heap := (heap s)(r \<mapsto> sp')\<rparr>"
    by (auto simp: span_op_def split: sum.splits)
  from k f have "sp_context sp' = sp_context sp" by (simp add: keeps_ctx_def)
  from Some this inv show ?thesis unfolding s1 by (rule ids_inv_ctx_upd)
qed

lemma ids_inv_finish_ref: "ids_inv s \<Longrightarrow> ids_inv (finish_ref r s)"
proof (cases "heap s r")
  case None
  then show "ids_inv s \<Longrightarrow> ids_inv (finish_ref r s)" by (simp add: finish_ref_def)
next
  case (Some sp)
  obtain sp' out where fs: "finish_span (clock s) sp = (sp', out)" by (cases "finish_span (clock s) sp")
  then have c: "sp_context sp' = sp_context sp" using finish_span_keeps_context(1) [of "clock s" sp] by simp
  show "ids_inv s \<Longrightarrow> ids_inv (finish_ref r s)"
    by (rule ids_inv_frame) (use Some fs c in \<open>auto simp: finish_ref_def\<close>)
qed

lemma ids_inv_pc_step: "pc_step t p c s = Some s' \<Longrightarrow> ids_inv s \<Longrightarrow> ids_inv s'"
  by (rule pc_step_preserves [where P = ids_inv and t = t and p = p and c = c and s = s])
     (auto intro: ids_inv_alloc_span ids_inv_span_op ids_inv_finish_ref ids_inv_same_heap
       simp: set_pc_def spawn_def sleep_def)

lemma ids_inv_step: "step e s = Some s' \<Longrightarrow> ids_inv s \<Longrightarrow> ids_inv s'"
  by (cases e) (auto split: option.splits if_splits intro: ids_inv_pc_step ids_inv_same_heap simp: spawn_def)

lemma ids_inv_main_init: "ids_inv (main_init gen cap qcap att)"
  by (simp add: ids_inv_def ids_ok_def main_init_def)

lemma reachable_ids_inv: "reachable s0 s \<Longrightarrow> ids_inv s0 \<Longrightarrow> ids_inv s"
  by (induction rule: reachable.induct) (auto intro: ids_inv_step)

lemma start_span_gen_pair: "start_span op opt now t = (sp, t') \<Longrightarrow> id_gen t' = id_gen t"
  using start_span_gen [of op opt now t] by simp

lemma step_id_gen: "step e s = Some s' \<Longrightarrow> id_gen (tr s') = id_gen (tr s)"
proof -
  have pc: "pc_step t p c s = Some s' \<Longrightarrow> id_gen (tr s') = id_gen (tr s)" for t p c s s'
    by (rule pc_step_preserves [where P = "\<lambda>x. id_gen (tr x) = id_gen (tr s)" and t = t and p = p and c = c and s = s])
       (auto simp: set_pc_def spawn_def alloc_span_def span_op_def finish_ref_def sleep_def
         dest: start_span_gen_pair split: prod.splits option.splits sum.splits)
  show "step e s = Some s' \<Longrightarrow> id_gen (tr s') = id_gen (tr s)"
    by (cases e) (auto split: option.splits if_splits intro: pc simp: spawn_def)
qed

lemma reachable_id_gen: "reachable s0 s \<Longrightarrow> id_gen (tr s) = id_gen (tr s0)"
  by (induction rule: reachable.induct) (auto dest: step_id_gen)

end
