(* ===== verification/Spec2Isabelle.thy ===== *)
theory Spec2Isabelle
  imports Invariants Parents StoreSpec Progress MainBoot Records Ids
begin

text \<open>
  \<^bold>\<open>A verified model of opentrace-examlpe.\<close>
  The repository is one Go program, src/main.go, that exercises an OpenTracing pipeline:
  HTTP handlers start spans through the global tracer, propagate span contexts in HTTP
  headers, finish spans, and the tracer ships finished spans through a remote collector
  to a collector server that stores them in an in-memory store read by a web UI.
  The tracing library itself (opentracing-go, appdash) is not under src/; it is modelled
  from the spec (spec.md, sections 3 to 7), and the handlers and \<open>main\<close> from the source.

  \<^bold>\<open>Theories.\<close>
  \<^item> \<open>Prelude\<close>: identifier types (\<open>64 word\<close>), time, the error taxonomy, the hexadecimal
    text of identifiers (\<open>format_id\<close>, \<open>parse_id\<close>, after \<open>strconv\<close>) with its round trip,
    length bound and equivalence with a positional reference reading
    (\<open>parse_hex_eq_ref\<close>), prefix stripping for reserved keys.
  \<^item> \<open>Codec\<close> (spec 4.1): span contexts, carriers as maps, \<open>inject_ctx\<close> and
    \<open>extract_ctx\<close> (Tracer.Inject/Extract with the TextMap format) with the round trip
    \<open>extract_inject\<close> and the lemmas that unrelated keys are neither written nor read.
  \<^item> \<open>Span\<close> (spec 4.2): the span record, \<open>set_tag\<close>, \<open>log_event\<close>,
    \<open>log_event_with_payload\<close> (errors after Finish), \<open>finish_span\<close> (first finish wins).
  \<^item> \<open>Tracer\<close>: \<open>start_span\<close> for roots and children over an explicit random source.
  \<^item> \<open>MemoryStore\<close> (spec 4.4): buckets per trace, recency order, oldest-first eviction,
    \<open>store_trace\<close>/\<open>store_traces\<close>; \<open>store_collect_inv\<close> shows every collect keeps
    the store invariant; \<open>trace_forest\<close> assembles a trace into a forest by parent links,
    keeping orphans as roots and re-parenting them when the parent arrives, with the
    lemmas that it keeps every span once (\<open>trace_forest_mset\<close>) and links faithfully
    (\<open>trace_forest_ok\<close>).
  \<^item> \<open>Collector\<close> (spec 4.3): the remote collector as a bounded queue with a retrying,
    dropping sender; the local collector writes to the store; multiset accounting lemmas.
  \<^item> \<open>Handlers\<close> (src/main.go): program points \<open>pc\<close> of indexHandler, homeHandler, its
    goroutine, serviceHandler and dbHandler; the system state \<open>sys\<close> (tracer, clock, span
    heap, threads, remote collector, store); one definition per handler step
    (\<open>home_entry\<close> \<dots> \<open>service_finish\<close>), the mux \<open>route\<close>, the composition root
    \<open>main_init\<close>, the executable step function \<open>step\<close> over events (a request arrives, a
    thread runs with the environment's choice, the sender delivers or fails), runs
    \<open>run\<close>, and the reachable states \<open>reachable\<close>.
  \<^item> \<open>Invariants\<close>: \<open>sys_inv\<close>, kept by every primitive, hence (by \<open>pc_step_preserves\<close>
    of \<open>Handlers\<close>) by every handler step and every system step, hence true in every
    state reachable from \<open>main_init\<close>.
  \<^item> \<open>Parents\<close>: \<open>parent_inv\<close>, every parent of a span in the heap is a span of the same
    trace with the same baggage, and every header a thread carries names such a span;
    kept by every step whose inbound request carries no context (\<open>closed_event\<close>).
  \<^item> \<open>StoreSpec\<close>: the abstract contract of the memory store (\<open>abs_collect\<close>,
    \<open>abs_trace\<close> on the list \<open>Traces()\<close> returns) and the refinement lemmas
    \<open>store_collect_refines\<close>, \<open>store_trace_refines\<close> under \<open>store_inv\<close>.
  \<^item> \<open>Progress\<close>: \<open>pc_rank\<close>, the longest remaining path of a handler, decreases with
    every step of its thread; \<open>refs_ok\<close> (every span pointer a thread holds is allocated)
    and \<open>tid_ok\<close> hold in every reachable state.
  \<^item> \<open>Records\<close>: \<open>rec_inv\<close>, the records in the pipeline (\<open>in_flight\<close>: queued, dropped,
    stored) are a sub-multiset of the finished spans of the heap (\<open>finished_spans\<close>); the
    store's side is derived from the refinement of \<open>StoreSpec\<close>.
  \<^item> \<open>Ids\<close>: \<open>ids_inv\<close>, while the identifiers drawn so far do not repeat, every
    span identifier in the heap is a drawn one and no two spans share one.
  \<^item> \<open>MainBoot\<close>: the process around the served program, start-up failures of
    \<open>ListenTCP\<close> and \<open>traceapp.New\<close> (\<open>main_boot\<close>) and the \<open>log.Fatal\<close> exits when
    the UI server or the application server returns (\<open>proc_step\<close>, \<open>proc_run\<close>).
  \<^item> this theory: properties of whole runs.

  \<^bold>\<open>Modelling choices.\<close>
  Goroutines and handler invocations are threads interleaved one step at a time; a
  synchronous HTTP call that succeeds starts the callee through the mux and waits until
  it is done; a failing one starts nothing. Random identifiers come from a sequence
  \<open>id_gen\<close>; sleeps are choices below 200 ms. The store bound, queue capacity and send
  attempts are parameters of \<open>main_init\<close>, which the code does not fix. Mutating a
  finished span fails loudly (\<open>Failed ErrorLifecycleViolation\<close>), as the spec demands.
  Runs are finite event lists, so no fuel is needed; every handler step is total, and no
  handler loops: \<open>thread_steps_bounded\<close> bounds the steps of a thread by \<open>pc_rank\<close> (at
  most 7), whatever the interleaving. \<open>reachable_iff_run\<close> shows the inductive and the
  executable semantics agree, and \<open>serving_states_reachable\<close> that the process layer
  adds nothing to the served program but its exits.

  \<^bold>\<open>Not modelled.\<close> Port numbers, address strings and console output of \<open>main\<close>
  (\<open>url.Parse\<close> of a constant cannot fail); the traceapp UI beyond the store queries it
  calls (\<open>store_trace\<close>, \<open>store_traces\<close>, \<open>store_trace_tree\<close>); response writing;
  HTTP header canonicalisation; the collector's byte format; the unclosed response
  bodies of \<open>http.Get\<close> (a resource leak with no effect on the traced state).

  \<^bold>\<open>Findings.\<close> homeHandler's \<open>/service\<close> call and serviceHandler's \<open>/db\<close> call carry no
  trace context, so \<open>/service\<close> starts a separate trace (\<open>home_request_traces\<close>); the
  goroutine of homeHandler can tag the \<open>/home\<close> span after its deferred Finish
  (\<open>home_goroutine_race\<close>); the spec's round trip cannot keep the parent field
  (\<open>Handlers.async_header_roundtrip\<close>); a request from outside can name a parent the
  program never started, so the parent invariant holds only for closed runs
  (\<open>closed_runs_parents_present\<close>, \<open>forged_header_orphan\<close>); a failure of the UI
  server ends the traced application (\<open>ui_server_failure_ends_app\<close>).
\<close>

subsection \<open>Runs used by the properties\<close>

definition seq_ids :: "nat \<Rightarrow> 64 word" where
  "seq_ids n = word_of_nat (Suc n)"


text \<open>
  A /home request whose /service call fails; /home finishes first, then the goroutine's
  /async call fails and it tags the span.
\<close>

definition race_run :: "event list" where
  "race_run =
     [Request ''/home'' Map.empty, Run 0 Go, Run 0 Go, Run 0 Go, Run 0 (NetErr ''refused''),
      Run 0 Go, Run 0 (Sleep 0), Run 0 Go, Run 1 (NetErr ''refused''), Run 1 Go]"

text \<open>A /home request whose calls fail; /home finishes after 5 ms.\<close>

definition home_only_run :: "event list" where
  "home_only_run =
     [Request ''/home'' Map.empty, Run 0 Go, Run 0 Go, Run 0 Go, Run 0 (NetErr ''refused''),
      Run 0 Go, Run 0 (Sleep 5), Run 0 Go]"

text \<open>Two /home requests, the second after the first trace was delivered.\<close>

definition evict_run :: "event list" where
  "evict_run = home_only_run @ [Send_ok,
     Request ''/home'' Map.empty, Run 2 Go, Run 2 Go, Run 2 Go, Run 2 (NetErr ''refused''),
     Run 2 Go, Run 2 (Sleep 5), Run 2 Go]"

text \<open>A /home request whose goroutine's /async call succeeds: two records of one trace.\<close>

definition two_spans_run :: "event list" where
  "two_spans_run =
     [Request ''/home'' Map.empty, Run 0 Go, Run 0 Go, Run 0 Go,
      Run 1 NetOk, Run 2 Go, Run 2 (NetErr ''refused''), Run 2 (Sleep 1), Run 2 Go, Run 1 Go,
      Run 0 (NetErr ''refused''), Run 0 Go, Run 0 (Sleep 2), Run 0 Go]"




subsection \<open>Whole-program properties\<close>


text \<open>
  C7. The goroutine race (src/main.go, lines 34--39): for every random source and every
  configuration there is a run in which homeHandler returns, so its deferred Finish
  runs, before its goroutine's /async call fails; the goroutine then calls SetTag on the
  finished /home span and fails with a lifecycle violation.
\<close>

theorem home_goroutine_race:
  "\<exists>s. reachable (main_init gen cap qcap att) s \<and> threads s 1 = Some (Failed ErrorLifecycleViolation)"
proof -
  have "map_option (\<lambda>s. threads s 1) (run race_run (main_init gen cap qcap att)) =
          Some (Some (Failed ErrorLifecycleViolation))"
    by (simp add: race_run_def handler_defs)
  then obtain s where r: "run race_run (main_init gen cap qcap att) = Some s"
      and t: "threads s 1 = Some (Failed ErrorLifecycleViolation)"
    by auto
  from reachable.init r have "reachable (main_init gen cap qcap att) s" by (rule run_reachable)
  with t show ?thesis by blast
qed

text \<open>
  C6. In every reachable state, every span in the heap that has a finish time finished
  no earlier than it started (spec 3: FinishTime \<open>\<ge>\<close> StartTime).
\<close>

theorem reachable_spans_wf:
  assumes "reachable (main_init gen cap qcap att) s" and "heap s r = Some sp" and "sp_finish sp = Some f"
  shows "sp_start sp \<le> f"
proof -
  from assms(1) sys_inv_main_init have "sys_inv s" by (rule reachable_sys_inv)
  with assms(2) have "span_wf sp" by (simp add: sys_inv_def)
  with assms(3) show ?thesis by (simp add: span_wf_def)
qed

theorem reachable_spans_wf_witness:
  "\<exists>s sp. reachable (main_init seq_ids 10 10 3) s \<and> heap s 0 = Some sp \<and> sp_finish sp = Some 5 \<and>
          sp_start sp \<le> 5"
proof -
  have "map_option (\<lambda>s. map_option sp_finish (heap s 0)) (run home_only_run (main_init seq_ids 10 10 3)) =
          Some (Some (Some 5))"
    by (simp add: home_only_run_def seq_ids_def handler_defs)
  then obtain s sp where r: "run home_only_run (main_init seq_ids 10 10 3) = Some s"
      and h: "heap s 0 = Some sp" and f: "sp_finish sp = Some 5"
    by (auto split: option.splits)
  from reachable.init r have re: "reachable (main_init seq_ids 10 10 3) s" by (rule run_reachable)
  have "sp_start sp \<le> 5" using reachable_spans_wf [OF re h f] .
  with re h f show ?thesis by blast
qed

text \<open>
  C5. In every reachable state, every record waiting in the remote collector's queue,
  dropped by it, or held by the store is a finished span whose finish time is not before
  its start time: only finished spans are ever handed to the collector.
\<close>

theorem reachable_records_finished:
  assumes "reachable (main_init gen cap qcap att) s"
    and "sp \<in> set (rc_queue (rcol s)) \<union> set (rc_dropped (rcol s)) \<union> stored_spans (store s)"
  shows "\<exists>f. sp_finish sp = Some f \<and> sp_start sp \<le> f"
proof -
  from assms(1) sys_inv_main_init have "sys_inv s" by (rule reachable_sys_inv)
  with assms(2) have "rec_ok sp" by (auto simp: sys_inv_def)
  then show ?thesis by (auto simp: rec_ok_def span_wf_def)
qed

theorem reachable_records_finished_witness:
  "\<exists>s sp. reachable (main_init seq_ids 10 10 3) s \<and> rc_queue (rcol s) = [sp] \<and>
          sp_finish sp = Some 5 \<and> sp_start sp \<le> 5"
proof -
  have "map_option (\<lambda>s. map sp_finish (rc_queue (rcol s))) (run home_only_run (main_init seq_ids 10 10 3)) =
          Some [Some 5]"
    by (simp add: home_only_run_def seq_ids_def handler_defs)
  then obtain s sp where r: "run home_only_run (main_init seq_ids 10 10 3) = Some s"
      and q: "rc_queue (rcol s) = [sp]" and f: "sp_finish sp = Some 5"
    by (auto split: option.splits)
  from reachable.init r have re: "reachable (main_init seq_ids 10 10 3) s" by (rule run_reachable)
  from q have "sp \<in> set (rc_queue (rcol s)) \<union> set (rc_dropped (rcol s)) \<union> stored_spans (store s)" by simp
  from reachable_records_finished [OF re this] f have "sp_start sp \<le> 5" by auto
  with re q f show ?thesis by blast
qed



text \<open>
  C10. A successful send of the remote collector hands the head of its queue to the
  collector server, whose local collector appends it to its trace's bucket in the store
  (spec 4.3, 4.4): Trace(id) then returns the earlier spans of that trace followed by it.
\<close>

theorem send_ok_delivers:
  assumes "step Send_ok s = Some s'" and "0 < max_traces (store s)"
  shows "\<exists>sp. rc_queue (rcol s) = sp # rc_queue (rcol s') \<and>
           store_trace (store s') (ctx_trace (sp_context sp)) =
             Inr ((case store_trace (store s) (ctx_trace (sp_context sp)) of Inl _ \<Rightarrow> [] | Inr xs \<Rightarrow> xs) @ [sp])"
proof -
  from assms(1) obtain sp rc' where ok: "rc_send_ok (rcol s) = Some (sp, rc')"
      and s': "s' = s\<lparr>rcol := rc', store := local_collect sp (store s)\<rparr>"
    by (auto split: option.splits)
  from ok have q: "rc_queue (rcol s) = sp # rc_queue rc'" by (auto simp: rc_send_ok_def split: list.splits)
  have "buckets (store_collect sp (store s)) (ctx_trace (sp_context sp)) =
          Some ((case buckets (store s) (ctx_trace (sp_context sp)) of None \<Rightarrow> [] | Some xs \<Rightarrow> xs) @ [sp])"
    using assms(2) by (rule store_collect_own_bucket)
  then show ?thesis using q
    by (auto simp: s' local_collect_def store_trace_def split: option.splits)
qed

theorem send_ok_delivers_witness:
  "\<exists>s s' sp. step Send_ok s = Some s' \<and> 0 < max_traces (store s) \<and> rc_queue (rcol s) = [sp] \<and>
      store_trace (store s') (ctx_trace (sp_context sp)) = Inr [sp]"
proof -
  have "map_option (\<lambda>s. (max_traces (store s), length (rc_queue (rcol s)), buckets (store s) 1))
          (run home_only_run (main_init seq_ids 10 10 3)) = Some (10, 1, None)"
    by (simp add: home_only_run_def seq_ids_def handler_defs)
  then obtain s where r: "run home_only_run (main_init seq_ids 10 10 3) = Some s"
      and m: "max_traces (store s) = 10" and l: "length (rc_queue (rcol s)) = 1" and b: "buckets (store s) 1 = None"
    by (auto split: option.splits)
  from l obtain sp where q: "rc_queue (rcol s) = [sp]" by (auto simp: length_Suc_conv)
  have "map_option (\<lambda>s. map (\<lambda>sp. ctx_trace (sp_context sp)) (rc_queue (rcol s)))
          (run home_only_run (main_init seq_ids 10 10 3)) = Some [1]"
    by (simp add: home_only_run_def seq_ids_def handler_defs)
  with r q have tid: "ctx_trace (sp_context sp) = 1" by simp
  obtain s' where st: "step Send_ok s = Some s'" using q by (simp add: rc_send_ok_def)
  from send_ok_delivers [OF st] m obtain sp' where
      "rc_queue (rcol s) = sp' # rc_queue (rcol s')"
      "store_trace (store s') (ctx_trace (sp_context sp')) =
         Inr ((case store_trace (store s) (ctx_trace (sp_context sp')) of Inl _ \<Rightarrow> [] | Inr xs \<Rightarrow> xs) @ [sp'])"
    by auto
  with q tid b have "store_trace (store s') (ctx_trace (sp_context sp)) = Inr [sp]"
    by (simp add: store_trace_def)
  moreover have "0 < max_traces (store s)" using m by simp
  ultimately show ?thesis using st q by blast
qed

text \<open>
  C15. Eviction (spec 4.4, 8): when the store holds as many traces as its bound and the
  sender delivers a span of a new trace, the trace whose last span arrived longest ago
  is evicted, so Trace(oldest) reports ErrorTraceNotFound, while Trace(newest) succeeds.
\<close>

theorem send_ok_evicts_oldest:
  assumes "sys_inv s" and "0 < max_traces (store s)"
    and "length (recency (store s)) = max_traces (store s)"
    and "rc_queue (rcol s) = sp # q" and "ctx_trace (sp_context sp) \<notin> set (recency (store s))"
  shows "\<exists>s'. step Send_ok s = Some s' \<and>
           store_trace (store s') (last (recency (store s))) = Inl ErrorTraceNotFound \<and>
           store_trace (store s') (ctx_trace (sp_context sp)) = Inr [sp]"
proof -
  have inv: "store_inv (store s)" using assms(1) by (simp add: sys_inv_def)
  let ?s' = "s\<lparr>rcol := rcol s\<lparr>rc_queue := q, rc_attempts := 0\<rparr>, store := local_collect sp (store s)\<rparr>"
  have st: "step Send_ok s = Some ?s'" using assms(4) by (simp add: rc_send_ok_def)
  from store_collect_evicts [OF inv assms(2,3,5)] st show ?thesis
    by (simp add: local_collect_def store_trace_def)
qed

theorem send_ok_evicts_oldest_witness:
  "\<exists>s s' sp. reachable (main_init seq_ids 1 10 3) s \<and> recency (store s) = [1] \<and>
      rc_queue (rcol s) = [sp] \<and> ctx_trace (sp_context sp) = 3 \<and>
      step Send_ok s = Some s' \<and>
      store_trace (store s') 1 = Inl ErrorTraceNotFound \<and> store_trace (store s') 3 = Inr [sp]"
proof -
  have "map_option (\<lambda>s. (recency (store s), max_traces (store s), map (\<lambda>sp. ctx_trace (sp_context sp)) (rc_queue (rcol s))))
          (run evict_run (main_init seq_ids 1 10 3)) = Some ([1], 1, [3])"
    by (simp add: evict_run_def home_only_run_def seq_ids_def handler_defs)
  then obtain s sp where r: "run evict_run (main_init seq_ids 1 10 3) = Some s"
      and rec: "recency (store s) = [1]" and m: "max_traces (store s) = 1"
      and q: "rc_queue (rcol s) = [sp]" and tid: "ctx_trace (sp_context sp) = 3"
    by (auto split: option.splits simp: map_eq_Cons_conv)
  from reachable.init r have re: "reachable (main_init seq_ids 1 10 3) s" by (rule run_reachable)
  from re sys_inv_main_init have inv: "sys_inv s" by (rule reachable_sys_inv)
  have "0 < max_traces (store s)" "length (recency (store s)) = max_traces (store s)"
       "ctx_trace (sp_context sp) \<notin> set (recency (store s))"
    using m rec tid by simp_all
  from send_ok_evicts_oldest [OF inv this(1,2) q this(3)] rec tid obtain s' where
      "step Send_ok s = Some s'" "store_trace (store s') 1 = Inl ErrorTraceNotFound"
      "store_trace (store s') 3 = Inr [sp]"
    by auto
  with re rec q tid show ?thesis by blast
qed

text \<open>
  C16. No record lost, none duplicated (spec 8): if the remote collector's queue holds
  records of one trace, the sender delivers them all, in order, with one successful send
  each, and Trace(id) then returns the spans the store held before followed by exactly
  those records.
\<close>

theorem drain_same_trace:
  assumes "rc_queue (rcol s) = xs" and "xs \<noteq> []" and "0 < max_traces (store s)"
    and "\<forall>sp \<in> set xs. ctx_trace (sp_context sp) = tid"
  shows "\<exists>s'. run (replicate (length xs) Send_ok) s = Some s' \<and> rc_queue (rcol s') = [] \<and>
           store_trace (store s') tid =
             Inr ((case store_trace (store s) tid of Inl _ \<Rightarrow> [] | Inr ys \<Rightarrow> ys) @ xs)"
proof -
  from run_send_ok_drain [OF assms(1)] obtain s' where
      r: "run (replicate (length xs) Send_ok) s = Some s'" and
      st: "store s' = fold local_collect xs (store s)" and q: "rc_queue (rcol s') = []"
    by blast
  have lc: "local_collect = store_collect" by (rule ext)+ (simp add: local_collect_def)
  have "buckets (store s') tid = Some ((case buckets (store s) tid of None \<Rightarrow> [] | Some ys \<Rightarrow> ys) @ xs)"
    using store_collect_fold_same_trace [OF assms(3,4)] assms(2) by (simp add: st lc)
  with r q show ?thesis by (auto simp: store_trace_def split: option.splits)
qed

theorem drain_same_trace_witness:
  "\<exists>s s' xs. reachable (main_init seq_ids 10 10 3) s \<and> rc_queue (rcol s) = xs \<and> length xs = 2 \<and>
      (\<forall>sp \<in> set xs. ctx_trace (sp_context sp) = 1) \<and> 0 < max_traces (store s) \<and>
      run (replicate 2 Send_ok) s = Some s' \<and> store_trace (store s') 1 = Inr xs"
proof -
  have "map_option (\<lambda>s. (max_traces (store s), buckets (store s) 1, map (\<lambda>sp. ctx_trace (sp_context sp)) (rc_queue (rcol s))))
          (run two_spans_run (main_init seq_ids 10 10 3)) = Some (10, None, [1, 1])"
    by (simp add: two_spans_run_def seq_ids_def handler_defs)
  then obtain s where r: "run two_spans_run (main_init seq_ids 10 10 3) = Some s"
      and m: "max_traces (store s) = 10" and b: "buckets (store s) 1 = None"
      and q: "map (\<lambda>sp. ctx_trace (sp_context sp)) (rc_queue (rcol s)) = [1, 1]"
    by (auto split: option.splits)
  from reachable.init r have re: "reachable (main_init seq_ids 10 10 3) s" by (rule run_reachable)
  let ?xs = "rc_queue (rcol s)"
  have l: "length ?xs = 2" using arg_cong [OF q, of length] by simp
  have t: "\<forall>sp \<in> set ?xs. ctx_trace (sp_context sp) = 1"
  proof
    fix sp assume "sp \<in> set ?xs"
    then have "ctx_trace (sp_context sp) \<in> set (map (\<lambda>sp. ctx_trace (sp_context sp)) ?xs)" by simp
    then show "ctx_trace (sp_context sp) = 1" using q by simp
  qed
  have ne: "?xs \<noteq> []" using l by auto
  have pos: "0 < max_traces (store s)" using m by simp
  from drain_same_trace [OF refl ne pos t] b l obtain s' where
      "run (replicate 2 Send_ok) s = Some s'" "store_trace (store s') 1 = Inr ?xs"
    by (auto simp: store_trace_def)
  with re l t pos show ?thesis by blast
qed




subsection \<open>Parents of spans\<close>

text \<open>
  C19. The spec's structural invariants (section 3) on the real handlers: in every run of
  the program whose inbound requests carry no trace context, every span with a parent
  has its parent in the program's own span heap, in the same trace and with the same
  baggage (baggage is propagated unchanged). Parents are never lost because the only
  headers the program reads are the ones it wrote itself.
\<close>

theorem closed_runs_parents_present:
  assumes "list_all Parents.closed_event es" and "run es (main_init gen cap qcap att) = Some s"
    and "heap s r = Some sp" and "ctx_parent (sp_context sp) = Some p"
  shows "\<exists>r' sp'. heap s r' = Some sp' \<and> ctx_trace (sp_context sp') = ctx_trace (sp_context sp) \<and>
           ctx_span (sp_context sp') = p \<and> ctx_baggage (sp_context sp') = ctx_baggage (sp_context sp)"
proof -
  have "parent_inv s" using parent_inv_run [OF assms(1) parent_inv_main_init assms(2)] .
  with assms(3,4) show ?thesis by (auto simp: parent_inv_def ctx_in_heap_def)
qed

theorem closed_runs_parents_present_witness:
  "list_all closed_event two_spans_run \<and>
   (\<exists>s sp r' sp'. run two_spans_run (main_init seq_ids 10 10 3) = Some s \<and> heap s 1 = Some sp \<and>
      ctx_parent (sp_context sp) = Some 2 \<and> heap s r' = Some sp' \<and>
      ctx_trace (sp_context sp') = ctx_trace (sp_context sp) \<and> ctx_span (sp_context sp') = 2 \<and>
      ctx_baggage (sp_context sp') = ctx_baggage (sp_context sp))"
proof -
  have c: "list_all closed_event two_spans_run" by (simp add: two_spans_run_def extract_ctx_def)
  have "map_option (\<lambda>s. map_option (\<lambda>sp. ctx_parent (sp_context sp)) (heap s 1))
          (run two_spans_run (main_init seq_ids 10 10 3)) = Some (Some (Some 2))"
    by (simp add: two_spans_run_def seq_ids_def handler_defs)
  then obtain s sp where r: "run two_spans_run (main_init seq_ids 10 10 3) = Some s"
      and h: "heap s 1 = Some sp" and p: "ctx_parent (sp_context sp) = Some 2"
    by (auto split: option.splits)
  from closed_runs_parents_present [OF c r h p] obtain r' sp' where
      "heap s r' = Some sp'" "ctx_trace (sp_context sp') = ctx_trace (sp_context sp)" "ctx_span (sp_context sp') = 2"
      "ctx_baggage (sp_context sp') = ctx_baggage (sp_context sp)"
    by blast
  with c r h p show ?thesis by blast
qed


subsection \<open>The store against its abstract contract\<close>

text \<open>
  C21. Refinement (spec 4.4): in every reachable state, a successful send changes the
  store exactly as the abstract contract's Collect changes the list \<open>Traces()\<close>
  returns (append to the trace, move it to the front, evict the last trace beyond the
  bound), and afterwards Trace(id) answers as the abstract lookup in that list.
\<close>

theorem send_ok_refines_abstract_store:
  assumes "reachable (main_init gen cap qcap att) s" and "step Send_ok s = Some s'"
  shows "\<exists>sp. rc_queue (rcol s) = sp # rc_queue (rcol s') \<and>
           store_traces (store s') = StoreSpec.abs_collect (max_traces (store s)) sp (store_traces (store s)) \<and>
           (\<forall>tid. store_trace (store s') tid = StoreSpec.abs_trace (store_traces (store s')) tid)"
proof -
  from assms(1) sys_inv_main_init have "sys_inv s" by (rule reachable_sys_inv)
  then have inv: "store_inv (store s)" by (simp add: sys_inv_def)
  from assms(2) obtain sp rc' where ok: "rc_send_ok (rcol s) = Some (sp, rc')"
      and s': "s' = s\<lparr>rcol := rc', store := store_collect sp (store s)\<rparr>"
    by (auto simp: local_collect_def split: option.splits)
  from ok have q: "rc_queue (rcol s) = sp # rc_queue rc'" by (auto simp: rc_send_ok_def split: list.splits)
  have inv': "store_inv (store s')" using store_collect_inv [OF inv] by (simp add: s')
  show ?thesis
    using q store_collect_refines [OF inv, of sp] store_trace_refines [OF inv'] by (simp add: s')
qed

theorem send_ok_refines_abstract_store_witness:
  "\<exists>s s' sp. reachable (main_init seq_ids 10 10 3) s \<and> step Send_ok s = Some s' \<and>
      rc_queue (rcol s) = [sp] \<and> store_traces (store s') = [(1, [sp])] \<and>
      store_trace (store s') 1 = Inr [sp]"
proof -
  have "map_option (\<lambda>s. (max_traces (store s), store_traces (store s), map (\<lambda>sp. ctx_trace (sp_context sp)) (rc_queue (rcol s))))
          (run home_only_run (main_init seq_ids 10 10 3)) = Some (10, [], [1])"
    by (simp add: home_only_run_def seq_ids_def handler_defs store_traces_def)
  then obtain s sp where r: "run home_only_run (main_init seq_ids 10 10 3) = Some s"
      and m: "max_traces (store s) = 10" and e: "store_traces (store s) = []"
      and q: "rc_queue (rcol s) = [sp]" and tid: "ctx_trace (sp_context sp) = 1"
    by (auto split: option.splits simp: map_eq_Cons_conv)
  from reachable.init r have re: "reachable (main_init seq_ids 10 10 3) s" by (rule run_reachable)
  obtain s' where st: "step Send_ok s = Some s'" using q by (simp add: rc_send_ok_def)
  from send_ok_refines_abstract_store [OF re st] q obtain sp' where
      "sp' = sp" "store_traces (store s') = abs_collect (max_traces (store s)) sp' (store_traces (store s))"
      "store_trace (store s') 1 = abs_trace (store_traces (store s')) 1"
    by auto
  then have "store_traces (store s') = [(1, [sp])]" "store_trace (store s') 1 = Inr [sp]"
    using m e tid by (simp_all add: abs_collect_def abs_trace_def)
  with re st q show ?thesis by blast
qed

subsection \<open>Termination of the handlers and typing of span pointers\<close>

text \<open>
  C22. Termination: no handler of src/main.go loops. In every reachable state, whatever
  the interleaving with other threads, requests and collector sends, a thread at program
  point \<open>p\<close> takes at most \<open>pc_rank p\<close> steps (7 for homeHandler, 5 for serviceHandler,
  3 for the goroutine, 1 for indexHandler and dbHandler) in any run.
\<close>

theorem thread_steps_bounded:
  assumes "reachable (main_init gen cap qcap att) s" and "threads s t = Some p" and "run es s = Some s'"
  shows "length (filter (Progress.runs_thread t) es) \<le> Progress.pc_rank p"
proof -
  from assms(1) main_init_typed have "tid_ok s \<and> refs_ok s" by (rule reachable_typed)
  with assms(2,3) show ?thesis by (blast intro: run_thread_rank)
qed

theorem thread_steps_bounded_witness:
  "\<exists>s s'. reachable (main_init seq_ids 10 10 3) s \<and> threads s 0 = Some Home_entry \<and>
      run (tl home_only_run) s = Some s' \<and> length (filter (runs_thread 0) (tl home_only_run)) = 7 \<and>
      length (filter (runs_thread 0) (tl home_only_run)) \<le> pc_rank Home_entry"
proof -
  let ?s = "snd (spawn Home_entry (main_init seq_ids 10 10 3))"
  have "run [Request ''/home'' Map.empty] (main_init seq_ids 10 10 3) = Some ?s" by (simp add: route_def)
  with reachable.init have re: "reachable (main_init seq_ids 10 10 3) ?s" by (rule run_reachable)
  have th: "threads ?s 0 = Some Home_entry" by (simp add: spawn_def main_init_def)
  have "\<exists>s'. run (tl home_only_run) ?s = Some s'"
    by (simp add: home_only_run_def seq_ids_def handler_defs)
  then obtain s' where r: "run (tl home_only_run) ?s = Some s'" by blast
  have l: "length (filter (runs_thread 0) (tl home_only_run)) = 7" by (simp add: home_only_run_def)
  from thread_steps_bounded [OF re th r] re th r l show ?thesis by blast
qed

text \<open>
  C23. Typing of the state: in every reachable state, every span pointer a thread holds
  (the \<open>span\<close> variable of homeHandler, its goroutine and serviceHandler) points to an
  allocated span, as a Go pointer returned by StartSpan does; so the model's branches for
  a dangling pointer in \<open>home_inject\<close>, \<open>span_op\<close> and \<open>finish_ref\<close> are never taken.
\<close>

theorem reachable_span_pointers_allocated:
  assumes "reachable (main_init gen cap qcap att) s" and "threads s t = Some p" and "r \<in> Progress.pc_refs p"
  shows "\<exists>sp. heap s r = Some sp"
proof -
  from assms(1) main_init_typed have "refs_ok s" by (blast dest: reachable_typed)
  with assms(2,3) show ?thesis by (auto simp: refs_ok_def)
qed

theorem reachable_span_pointers_allocated_witness:
  "\<exists>s. reachable (main_init seq_ids 10 10 3) s \<and> threads s 0 = Some (Home_inject 0) \<and>
      (0::nat) \<in> pc_refs (Home_inject 0) \<and> (\<exists>sp. heap s 0 = Some sp)"
proof -
  have "map_option (\<lambda>s. threads s 0) (run [Request ''/home'' Map.empty, Run 0 Go] (main_init seq_ids 10 10 3)) =
          Some (Some (Home_inject 0))"
    by (simp add: seq_ids_def handler_defs)
  then obtain s where r: "run [Request ''/home'' Map.empty, Run 0 Go] (main_init seq_ids 10 10 3) = Some s"
      and th: "threads s 0 = Some (Home_inject 0)"
    by (auto split: option.splits)
  from reachable.init r have re: "reachable (main_init seq_ids 10 10 3) s" by (rule run_reachable)
  have m: "(0::nat) \<in> pc_refs (Home_inject 0)" by simp
  from reachable_span_pointers_allocated [OF re th m] re th m show ?thesis by blast
qed

subsection \<open>Runs and reachable states\<close>


subsection \<open>The process: start-up and fatal exits\<close>

text \<open>
  C25. \<open>log.Fatal\<close> in the trace UI's server goroutine (src/main.go, lines 101--103) ends
  the whole process: once the UI server returns, whatever happened before, the traced
  application serves no further request and the process has exited with that error.
\<close>

theorem ui_server_failure_ends_app:
  assumes "MainBoot.proc_run (pes @ MainBoot.UiServerExit e # pes') (MainBoot.main_boot gen cap qcap att None None) = Some p"
  shows "pes' = [] \<and> p = Exited (UiServeFailed e)"
proof -
  from assms obtain p1 where r2: "proc_run (UiServerExit e # pes') p1 = Some p"
    by (auto simp: proc_run_append split: option.splits)
  from r2 obtain p2 where st: "proc_step (UiServerExit e) p1 = Some p2" and r3: "proc_run pes' p2 = Some p"
    by (auto split: option.splits)
  from st have "p2 = Exited (UiServeFailed e)" by (cases p1) auto
  with r3 show ?thesis by (simp add: proc_run_exited split: if_splits)
qed

theorem ui_server_failure_ends_app_witness:
  "proc_run ([Ev (Request ''/home'' Map.empty)] @ [UiServerExit ''address in use''])
      (main_boot seq_ids 10 10 3 None None) = Some (Exited (UiServeFailed ''address in use'')) \<and>
   ([] :: pevent list) = [] \<and> Exited (UiServeFailed ''address in use'') = Exited (UiServeFailed ''address in use'')"
proof -
  have r: "proc_run ([Ev (Request ''/home'' Map.empty)] @ UiServerExit ''address in use'' # [])
      (main_boot seq_ids 10 10 3 None None) = Some (Exited (UiServeFailed ''address in use''))"
    by (simp add: main_boot_def)
  from ui_server_failure_ends_app [OF r] r show ?thesis by simp
qed


subsection \<open>Recording discipline\<close>

text \<open>
  C27. Recorded once, after Finish (spec 3), for the whole program: in every reachable
  state, the records held by the pipeline (queued in the remote collector, dropped by
  it, or kept in the store) form a sub-multiset of the finished spans of the heap. No
  record exists of an unfinished span, and no finished span is recorded more often than
  it exists, however often Finish is called and however sends fail, retry or evict.
\<close>

theorem reachable_records_of_finished_spans:
  assumes "reachable (main_init gen cap qcap att) s"
  shows "Records.in_flight s \<subseteq># Records.finished_spans s"
proof -
  from assms sys_inv_main_init rec_inv_main_init have "rec_inv s" by (blast dest: reachable_rec_inv)
  then show ?thesis by (simp add: rec_inv_def)
qed

theorem reachable_records_of_finished_spans_witness:
  "\<exists>s. reachable (main_init seq_ids 10 10 3) s \<and> in_flight s \<noteq> {#} \<and> in_flight s = finished_spans s \<and>
      in_flight s \<subseteq># finished_spans s"
proof -
  have "map_option (\<lambda>s. (length (rc_queue (rcol s)), in_flight s = finished_spans s))
          (run home_only_run (main_init seq_ids 10 10 3)) = Some (1, True)"
    by (simp add: home_only_run_def seq_ids_def handler_defs in_flight_def finished_spans_def fin_at_def
        stored_mset_def store_traces_def)
  then obtain s where r: "run home_only_run (main_init seq_ids 10 10 3) = Some s"
      and l: "length (rc_queue (rcol s)) = 1" and e: "in_flight s = finished_spans s"
    by (auto split: option.splits)
  from reachable.init r have re: "reachable (main_init seq_ids 10 10 3) s" by (rule run_reachable)
  from l have "in_flight s \<noteq> {#}" by (auto simp: in_flight_def)
  with re e reachable_records_of_finished_spans [OF re] show ?thesis by blast
qed

subsection \<open>Bounded retries\<close>

text \<open>
  C28. Best-effort delivery with a bounded attempt window (spec 4.3, 5): in every reachable
  state, a record at the head of the remote collector's queue that has not yet failed is
  dropped after exactly \<open>att\<close> consecutive failed sends, \<open>att\<close> being the attempt bound
  \<open>main\<close> configured; the queue moves on to the next record and nothing else changes.
\<close>

theorem send_failures_drop_record:
  assumes "reachable (main_init gen cap qcap att) s" and "rc_queue (rcol s) = sp # q"
    and "rc_attempts (rcol s) = 0" and "0 < att"
  shows "\<exists>s'. run (replicate att Send_fail) s = Some s' \<and> rc_queue (rcol s') = q \<and>
           rc_dropped (rcol s') = rc_dropped (rcol s) @ [sp] \<and> store s' = store s \<and> heap s' = heap s"
proof -
  have m: "rc_max_attempts (rcol s) = att"
    using reachable_rc_config [OF assms(1)] by (simp add: main_init_def new_remote_collector_def)
  from assms(4) obtain k where k: "att = Suc k" by (cases att) auto
  have "rc_attempts (rcol s) + Suc k = rc_max_attempts (rcol s)" using assms(3) m k by simp
  from run_send_fail_drop [OF assms(2) this] k show ?thesis by simp
qed

theorem send_failures_drop_record_witness:
  "\<exists>s sp s'. reachable (main_init seq_ids 10 10 3) s \<and> rc_queue (rcol s) = [sp] \<and> rc_attempts (rcol s) = 0 \<and>
      (0::nat) < 3 \<and> run (replicate 3 Send_fail) s = Some s' \<and> rc_queue (rcol s') = [] \<and> rc_dropped (rcol s') = [sp]"
proof -
  have "map_option (\<lambda>s. (length (rc_queue (rcol s)), rc_attempts (rcol s), rc_dropped (rcol s)))
          (run home_only_run (main_init seq_ids 10 10 3)) = Some (1, 0, [])"
    by (simp add: home_only_run_def seq_ids_def handler_defs)
  then obtain s where r: "run home_only_run (main_init seq_ids 10 10 3) = Some s"
      and l: "length (rc_queue (rcol s)) = 1" and a: "rc_attempts (rcol s) = 0" and d: "rc_dropped (rcol s) = []"
    by (auto split: option.splits)
  from l obtain sp where q: "rc_queue (rcol s) = [sp]" by (auto simp: length_Suc_conv)
  from reachable.init r have re: "reachable (main_init seq_ids 10 10 3) s" by (rule run_reachable)
  have z: "(0::nat) < 3" by simp
  from send_failures_drop_record [OF re q a z] d obtain s' where
      "run (replicate 3 Send_fail) s = Some s'" "rc_queue (rcol s') = []" "rc_dropped (rcol s') = [sp]"
    by auto
  with re q a z show ?thesis by blast
qed

subsection \<open>Unique span identifiers\<close>

text \<open>
  C29. Span identifiers are unique (spec 3): in every reachable state, as long as the
  random source has not repeated itself among the identifiers drawn so far, no two spans
  of the heap share a span identifier, whichever handlers, goroutines and requests
  created them.
\<close>

theorem reachable_span_ids_unique:
  assumes "reachable (main_init gen cap qcap att) s" and "inj_on gen {..<draws (tr s)}"
    and "heap s r = Some sp" and "heap s r' = Some sp'" and "r \<noteq> r'"
  shows "ctx_span (sp_context sp) \<noteq> ctx_span (sp_context sp')"
proof -
  have g: "id_gen (tr s) = gen" using reachable_id_gen [OF assms(1)] by (simp add: main_init_def)
  from assms(1) ids_inv_main_init have "Ids.ids_inv s" by (rule reachable_ids_inv)
  with assms(2) g have "ids_ok s" by (simp add: ids_inv_def ids_unique_def)
  with assms(3-5) show ?thesis by (auto simp: ids_ok_def)
qed

theorem reachable_span_ids_unique_witness:
  "\<exists>s sp sp'. reachable (main_init seq_ids 10 10 3) s \<and> inj_on seq_ids {..<draws (tr s)} \<and>
      heap s 0 = Some sp \<and> heap s 1 = Some sp' \<and> (0::nat) \<noteq> 1 \<and>
      ctx_span (sp_context sp) \<noteq> ctx_span (sp_context sp')"
proof -
  have "map_option (\<lambda>s. (draws (tr s), heap s 0 \<noteq> None, heap s 1 \<noteq> None))
          (run two_spans_run (main_init seq_ids 10 10 3)) = Some (3, True, True)"
    by (simp add: two_spans_run_def seq_ids_def handler_defs)
  then obtain s sp sp' where r: "run two_spans_run (main_init seq_ids 10 10 3) = Some s"
      and d: "draws (tr s) = 3" and h0: "heap s 0 = Some sp" and h1: "heap s 1 = Some sp'"
    by (auto split: option.splits)
  from reachable.init r have re: "reachable (main_init seq_ids 10 10 3) s" by (rule run_reachable)
  have "inj_on seq_ids {..<3}"
    by (auto simp: inj_on_def seq_ids_def less_Suc_eq numeral_3_eq_3)
  with d have inj: "inj_on seq_ids {..<draws (tr s)}" by simp
  have ne: "(0::nat) \<noteq> 1" by simp
  from reachable_span_ids_unique [OF re inj h0 h1 ne] re inj h0 h1 ne show ?thesis by blast
qed

subsection \<open>Memory bounds\<close>

text \<open>
  C30. Bounded memory (spec 4.4, 5, 9): in every reachable state the remote collector's
  queue holds at most \<open>qcap\<close> records, \<open>Traces()\<close> lists at most \<open>cap\<close> traces, and the
  sender's failure count stays below the attempt bound, the three bounds \<open>main\<close>
  configured; so \<open>Finish\<close> never waits for room in the queue.
\<close>

theorem reachable_memory_bounds:
  assumes "reachable (main_init gen cap qcap att) s"
  shows "length (rc_queue (rcol s)) \<le> qcap \<and> length (store_traces (store s)) \<le> cap \<and>
         rc_attempts (rcol s) < max 1 att"
proof -
  from assms sys_inv_main_init have inv: "sys_inv s" by (rule reachable_sys_inv)
  have c: "rc_max_attempts (rcol s) = att" "rc_capacity (rcol s) = qcap" "max_traces (store s) = cap"
    using reachable_rc_config [OF assms]
    by (simp_all add: main_init_def new_remote_collector_def empty_store_def)
  from inv have "store_inv (store s)" "rc_inv (rcol s)" by (simp_all add: sys_inv_def)
  with c show ?thesis
    by (simp add: store_traces_entries rc_inv_def store_inv_def)
qed

theorem reachable_memory_bounds_witness:
  "\<exists>s. reachable (main_init seq_ids 10 1 3) s \<and> length (rc_queue (rcol s)) = 1 \<and>
      length (rc_queue (rcol s)) \<le> 1 \<and> length (store_traces (store s)) \<le> 10 \<and> rc_attempts (rcol s) < max 1 3"
proof -
  have "map_option (\<lambda>s. length (rc_queue (rcol s))) (run home_only_run (main_init seq_ids 10 1 3)) = Some 1"
    by (simp add: home_only_run_def seq_ids_def handler_defs)
  then obtain s where r: "run home_only_run (main_init seq_ids 10 1 3) = Some s"
      and l: "length (rc_queue (rcol s)) = 1"
    by (auto split: option.splits)
  from reachable.init r have re: "reachable (main_init seq_ids 10 1 3) s" by (rule run_reachable)
  from reachable_memory_bounds [OF re] re l show ?thesis by blast
qed

end
